theory Spec2Isabelle
  imports Complex_Main "HOL-Library.Word" "HOL-Library.Log_Nat" "HOL-Library.Multiset"
begin

section \<open>JavaScript values used by the front end\<close>

subsection \<open>Strings\<close>

text \<open>
  A JavaScript string is a sequence of 16-bit code units. \<open>str\<close> embeds an ASCII
  literal, so that the examples can be written as text.
\<close>

type_synonym jschar = "16 word"
type_synonym jsstring = "jschar list"

definition str :: "string \<Rightarrow> jsstring" where
  "str s = map (\<lambda>c. of_nat (of_char c)) s"

text \<open>
  \<open>String.prototype.trim\<close> removes the code points WhiteSpace and LineTerminator of
  ECMAScript from both ends: TAB, LF, VT, FF, CR, SP, NBSP, the other space separators
  of Unicode, LS, PS and the byte-order mark. All of them are single code units.
\<close>

definition isWhiteSpace :: "jschar \<Rightarrow> bool" where
  "isWhiteSpace c \<longleftrightarrow>
     c \<in> set [0x0009, 0x000A, 0x000B, 0x000C, 0x000D, 0x0020, 0x00A0, 0x1680,
              0x2000, 0x2001, 0x2002, 0x2003, 0x2004, 0x2005, 0x2006, 0x2007,
              0x2008, 0x2009, 0x200A, 0x2028, 0x2029, 0x202F, 0x205F, 0x3000,
              0xFEFF]"

definition trim :: "jsstring \<Rightarrow> jsstring" where
  "trim s = rev (dropWhile isWhiteSpace (rev (dropWhile isWhiteSpace s)))"

text \<open>
  \<open>s.split(re)\<close> for a regular expression that matches exactly one code unit of a
  class: the scan of RegExp.prototype[@@split], with \<open>cur\<close> the piece between the
  last match and the scan position. The empty string gives one empty piece.
\<close>

fun split_loop :: "(jschar \<Rightarrow> bool) \<Rightarrow> jsstring \<Rightarrow> jsstring \<Rightarrow> jsstring list" where
  "split_loop sep cur [] = [cur]"
| "split_loop sep cur (c # cs) =
     (if sep c then cur # split_loop sep [] cs else split_loop sep (cur @ [c]) cs)"

definition split_re :: "(jschar \<Rightarrow> bool) \<Rightarrow> jsstring \<Rightarrow> jsstring list" where
  "split_re sep s = split_loop sep [] s"

text \<open>\<open>xs.join(sep)\<close> on an array of strings.\<close>

fun join :: "jsstring \<Rightarrow> jsstring list \<Rightarrow> jsstring" where
  "join sep [] = []"
| "join sep [x] = x"
| "join sep (x # y # ys) = x @ sep @ join sep (y # ys)"

subsection \<open>Numbers\<close>

text \<open>
  A JavaScript Number is an IEEE 754 binary64 value. A finite one is kept as the
  rational it denotes (the two zeros are not told apart: no operation below does);
  \<open>round64\<close> is the rounding of an exact result to the nearest binary64 value, ties
  to the even significand, with overflow to an infinity.
\<close>

datatype jsnum = NaN | PInf | NInf | Fin rat

definition pow2 :: "int \<Rightarrow> rat" where
  "pow2 e = (if 0 \<le> e then 2 ^ nat e else 1 / 2 ^ nat (- e))"

text \<open>The binary exponent of a non-zero rational: \<open>2 ^ ilog2 x \<le> \<bar>x\<bar> < 2 ^ (ilog2 x + 1)\<close>.\<close>

definition ilog2 :: "rat \<Rightarrow> int" where
  "ilog2 x =
     (if 1 \<le> \<bar>x\<bar> then int (floorlog 2 (nat \<lfloor>\<bar>x\<bar>\<rfloor>)) - 1
      else - int (floorlog 2 (nat (\<lceil>1 / \<bar>x\<bar>\<rceil> - 1))))"

definition roundTiesToEven :: "rat \<Rightarrow> int" where
  "roundTiesToEven r =
     (let f = \<lfloor>r\<rfloor>; d = r - of_int f
      in if d < 1 / 2 then f else if 1 / 2 < d then f + 1 else if even f then f else f + 1)"

definition round64 :: "rat \<Rightarrow> jsnum" where
  "round64 x =
     (if x = 0 then Fin 0
      else let e = max (ilog2 x) (- 1022);
               q = pow2 (e - 52);
               y = of_int (roundTiesToEven (x / q)) * q
           in if 2 ^ 1024 \<le> \<bar>y\<bar> then (if 0 < x then PInf else NInf) else Fin y)"

text \<open>The operator \<open>+\<close> on two Numbers.\<close>

fun js_add :: "jsnum \<Rightarrow> jsnum \<Rightarrow> jsnum" where
  "js_add NaN _ = NaN"
| "js_add _ NaN = NaN"
| "js_add PInf NInf = NaN"
| "js_add NInf PInf = NaN"
| "js_add PInf _ = PInf"
| "js_add _ PInf = PInf"
| "js_add NInf _ = NInf"
| "js_add _ NInf = NInf"
| "js_add (Fin a) (Fin b) = round64 (a + b)"

text \<open>
  The rational a finite Number denotes, and the Numbers that are non-negative
  multiples of \<open>1 / 2\<^sup>j\<close>.
\<close>

fun num_value :: "jsnum \<Rightarrow> rat" where
  "num_value (Fin r) = r"
| "num_value _ = 0"

fun on_grid :: "nat \<Rightarrow> jsnum \<Rightarrow> bool" where
  "on_grid j (Fin r) = (0 \<le> r \<and> of_int \<lfloor>r * 2 ^ j\<rfloor> = r * 2 ^ j)"
| "on_grid j _ = False"

text \<open>A Number is falsy when it is a zero or NaN.\<close>

fun truthy_num :: "jsnum \<Rightarrow> bool" where
  "truthy_num NaN = False"
| "truthy_num (Fin r) = (r \<noteq> 0)"
| "truthy_num _ = True"

text \<open>The decimal digits of a natural number, as \<open>String(n)\<close> writes an integer.\<close>

function digits :: "nat \<Rightarrow> jsstring" where
  "digits n = (if n < 10 then [of_nat (48 + n)] else digits (n div 10) @ [of_nat (48 + n mod 10)])"
  by pat_completeness auto
termination
  by (relation "measure (\<lambda>n. n)") auto

declare digits.simps [simp del]

text \<open>
  What the functions of the platform return is not part of the repository:
  \<open>new Date(d).toLocaleDateString('pt-BR')\<close> depends on the time zone and the locale
  data of the browser, and Number::toString on the digits the engine chooses for a
  magnitude of \<open>10\<^sup>2\<^sup>1\<close> or more. They are parameters of the model.
\<close>

record platform =
  toLocaleDateString :: "jsstring \<Rightarrow> jsstring"
  numberToString :: "rat \<Rightarrow> jsstring"

text \<open>
  \<open>Number.prototype.toFixed(f)\<close>: the integer \<open>n\<close> with \<open>n / 10\<^sup>f\<close> nearest to the
  magnitude (the larger one of two), written with at least \<open>f + 1\<close> digits and a point
  before the last \<open>f\<close>.
\<close>

definition toFixed :: "platform \<Rightarrow> nat \<Rightarrow> jsnum \<Rightarrow> jsstring" where
  "toFixed P f x =
     (case x of
        NaN \<Rightarrow> str ''NaN''
      | PInf \<Rightarrow> str ''Infinity''
      | NInf \<Rightarrow> str ''-Infinity''
      | Fin r \<Rightarrow>
          (let s = (if r < 0 then str ''-'' else []); a = \<bar>r\<bar>
           in if 10 ^ 21 \<le> a then s @ numberToString P a
              else let n = nat \<lfloor>a * 10 ^ f + 1 / 2\<rfloor>;
                       d = digits n;
                       m = replicate (f + 1 - length d) 0x30 @ d;
                       k = length m
                   in s @ (if f = 0 then m else take (k - f) m @ str ''.'' @ drop (k - f) m)))"

section \<open>Identifier parser\<close>

text \<open>
  The character class \<open>[,;\n]\<close> of the expression in \<open>handleScrape\<close>, and the list
  \<open>unitList = units.split(/[,;\n]/).map(u => u.trim()).filter(Boolean)\<close>. A string is
  truthy when it is not empty.
\<close>

definition isSeparator :: "jschar \<Rightarrow> bool" where
  "isSeparator c \<longleftrightarrow> c = 0x2C \<or> c = 0x3B \<or> c = 0x0A"

definition unitList :: "jsstring \<Rightarrow> jsstring list" where
  "unitList units = filter (\<lambda>u. u \<noteq> []) (map trim (split_re isSeparator units))"

text \<open>
  The parser in the words of the specification: the pieces of the string between
  consecutive separators, from left to right, each one with the white space of both
  ends removed, the empty ones dropped.
\<close>

function pieces :: "(jschar \<Rightarrow> bool) \<Rightarrow> jsstring \<Rightarrow> jsstring list" where
  "pieces sep s =
     (case dropWhile (\<lambda>c. \<not> sep c) s of
        [] \<Rightarrow> [takeWhile (\<lambda>c. \<not> sep c) s]
      | _ # rest \<Rightarrow> takeWhile (\<lambda>c. \<not> sep c) s # pieces sep rest)"
  by pat_completeness auto
termination
proof (relation "measure (\<lambda>(sep, s). length s)")
  show "wf (measure (\<lambda>(sep, s). length s))" by simp
next
  fix sep :: "jschar \<Rightarrow> bool" and s :: jsstring and x rest
  assume "dropWhile (\<lambda>c. \<not> sep c) s = x # rest"
  then have "length (x # rest) \<le> length s"
    by (metis length_dropWhile_le)
  then show "((sep, rest), (sep, s)) \<in> measure (\<lambda>(sep, s). length s)"
    by simp
qed

declare pieces.simps [simp del]

definition parse_spec :: "jsstring \<Rightarrow> jsstring list" where
  "parse_spec s = filter (\<lambda>p. p \<noteq> []) (map trim (pieces isSeparator s))"

text \<open>
  What the pieces are: none contains a separator, there is one more piece than there
  are separators, and putting the separators back between them gives the input.
\<close>

fun weave :: "jsstring list \<Rightarrow> jschar list \<Rightarrow> jsstring" where
  "weave [] ds = []"
| "weave [p] ds = p"
| "weave (p # q # ps) [] = p"
| "weave (p # q # ps) (d # ds) = p @ d # weave (q # ps) ds"

section \<open>Data model\<close>

text \<open>
  The objects of the array \<open>results\<close> of the backend's answer. The fields the code
  tests before use, \<open>total\<close>, \<open>rows\<close> and \<open>error\<close>, may be absent (\<open>undefined\<close> or
  \<open>null\<close>).
\<close>

record daily_record =
  date :: jsstring
  kg :: jsnum

record unit_result =
  unit_id :: jsstring
  total_kg :: "jsnum option"
  rows :: "daily_record list option"
  error :: "jsstring option"

text \<open>\<open>r.error\<close> as a condition: present and not the empty string.\<close>

definition hasError :: "unit_result \<Rightarrow> bool" where
  "hasError r = (case error r of None \<Rightarrow> False | Some e \<Rightarrow> e \<noteq> [])"

section \<open>Result aggregator\<close>

text \<open>
  The three values \<open>App\<close> computes on every render:
  \<open>totalKg = results.reduce((sum, r) => sum + (r.total || 0), 0)\<close>,
  \<open>successCount = results.filter(r => !r.error).length\<close> and
  \<open>errorCount = results.filter(r => r.error).length\<close>.
\<close>

definition total_or_0 :: "unit_result \<Rightarrow> jsnum" where
  "total_or_0 r = (case total_kg r of None \<Rightarrow> Fin 0 | Some t \<Rightarrow> if truthy_num t then t else Fin 0)"

definition totalKg :: "unit_result list \<Rightarrow> jsnum" where
  "totalKg results = foldl (\<lambda>sum r. js_add sum (total_or_0 r)) (Fin 0) results"

definition successCount :: "unit_result list \<Rightarrow> nat" where
  "successCount results = length (filter (\<lambda>r. \<not> hasError r) results)"

definition errorCount :: "unit_result list \<Rightarrow> nat" where
  "errorCount results = length (filter (\<lambda>r. hasError r) results)"

text \<open>
  The total an entry stores, as a rational (0 when it is absent or not finite), and the
  entries whose stored total, when there is one, is a non-negative multiple of
  \<open>1 / 2\<^sup>j\<close>. Neither looks at the error field.
\<close>

definition stored_total :: "unit_result \<Rightarrow> rat" where
  "stored_total r = (case total_kg r of None \<Rightarrow> 0 | Some t \<Rightarrow> num_value t)"

definition grid_total :: "nat \<Rightarrow> unit_result \<Rightarrow> bool" where
  "grid_total j r = (case total_kg r of None \<Rightarrow> True | Some t \<Rightarrow> on_grid j t)"

section \<open>Tabular exporter\<close>

datatype js_error = TypeError

record download =
  content :: jsstring
  filename :: jsstring

definition headers :: "jsstring list" where
  "headers = [str ''Unidade'', str ''Data'', str ''Kg'', str ''Total Unidade'', str ''Erro'']"

text \<open>
  The body of \<open>results.forEach\<close>: the rows pushed for one result onto the array
  \<open>rows\<close>. \<open>result.total.toFixed\<close> throws when \<open>total\<close> is absent.
\<close>

definition push_result :: "platform \<Rightarrow> jsstring list list \<Rightarrow> unit_result \<Rightarrow> js_error + jsstring list list" where
  "push_result P acc result =
     (case total_kg result of
        None \<Rightarrow> Inl TypeError
      | Some t \<Rightarrow>
          (let unitId = unit_id result;
               total = toFixed P 2 t;
               err = (case error result of None \<Rightarrow> [] | Some e \<Rightarrow> if e \<noteq> [] then e else [])
           in case rows result of
                None \<Rightarrow> Inr (acc @ [[unitId, [], [], total, err]])
              | Some rs \<Rightarrow>
                  if length rs > 0
                  then Inr (foldl (\<lambda>acc row. acc @ [[unitId, toLocaleDateString P (date row),
                                                       toFixed P 2 (kg row), total, err]]) acc rs)
                  else Inr (acc @ [[unitId, [], [], total, err]])))"

fun forEach_result :: "platform \<Rightarrow> jsstring list list \<Rightarrow> unit_result list \<Rightarrow> js_error + jsstring list list" where
  "forEach_result P acc [] = Inr acc"
| "forEach_result P acc (result # rest) =
     (case push_result P acc result of
        Inl e \<Rightarrow> Inl e
      | Inr acc' \<Rightarrow> forEach_result P acc' rest)"

definition quote_cell :: "jsstring \<Rightarrow> jsstring" where
  "quote_cell cell = str ''\"'' @ cell @ str ''\"''"

definition csvContent :: "jsstring list list \<Rightarrow> jsstring" where
  "csvContent rws =
     join (str ''\<newline>'') (join (str '','') headers # map (\<lambda>row. join (str '','') (map quote_cell row)) rws)"

definition BOM :: jsstring where
  "BOM = [0xFEFF]"

text \<open>
  \<open>exportToCSV\<close>: what is handed to the browser for download, the text of the Blob and
  the file name; \<open>now\<close> is \<open>new Date().getTime()\<close>.
\<close>

definition exportToCSV :: "platform \<Rightarrow> nat \<Rightarrow> unit_result list \<Rightarrow> jsstring \<Rightarrow> jsstring \<Rightarrow> js_error + download" where
  "exportToCSV P now results startDate endDate =
     (case forEach_result P [] results of
        Inl e \<Rightarrow> Inl e
      | Inr rws \<Rightarrow>
          Inr \<lparr>content = BOM @ csvContent rws,
               filename = str ''autolav_'' @ startDate @ str ''_'' @ endDate @ str ''_''
                          @ digits now @ str ''.csv''\<rparr>)"

text \<open>
  The table in the words of the specification. For each result, in the order of the
  sequence: one row for each daily record when there are any, with the unit, the
  formatted date, the kg with two decimals, the total of the unit with two decimals
  and the text of the error or the empty text; and one row with empty date and kg
  otherwise.
\<close>

definition error_text :: "unit_result \<Rightarrow> jsstring" where
  "error_text r = (case error r of None \<Rightarrow> [] | Some e \<Rightarrow> e)"

definition total_text :: "platform \<Rightarrow> unit_result \<Rightarrow> jsstring" where
  "total_text P r = (case total_kg r of None \<Rightarrow> [] | Some t \<Rightarrow> toFixed P 2 t)"

definition data_rows :: "platform \<Rightarrow> unit_result \<Rightarrow> jsstring list list" where
  "data_rows P r =
     (case rows r of
        Some (d # ds) \<Rightarrow>
          map (\<lambda>row. [unit_id r, toLocaleDateString P (date row), toFixed P 2 (kg row),
                       total_text P r, error_text r]) (d # ds)
      | _ \<Rightarrow> [[unit_id r, [], [], total_text P r, error_text r]])"

text \<open>
  A reader of delimited text after RFC 4180: records end at a line feed, fields are
  separated by commas, a field is either free of quotes, commas and line feeds or
  enclosed in quotes, where a quote is written twice. A leading byte-order mark is
  skipped. Text that is not of this form is refused.
\<close>

datatype rstate = FieldStart | Unquoted | Quoted | QuoteSeen

fun read_loop ::
  "rstate \<Rightarrow> jsstring \<Rightarrow> jsstring list \<Rightarrow> jsstring list list \<Rightarrow> jsstring \<Rightarrow> jsstring list list option" where
  "read_loop st f fs rs [] =
     (case st of
        Quoted \<Rightarrow> None
      | FieldStart \<Rightarrow> if fs = [] then Some rs else Some (rs @ [fs @ [f]])
      | _ \<Rightarrow> Some (rs @ [fs @ [f]]))"
| "read_loop st f fs rs (c # cs) =
     (case st of
        FieldStart \<Rightarrow>
          if c = 0x22 then read_loop Quoted [] fs rs cs
          else if c = 0x2C then read_loop FieldStart [] (fs @ [[]]) rs cs
          else if c = 0x0A then read_loop FieldStart [] [] (rs @ [fs @ [[]]]) cs
          else read_loop Unquoted [c] fs rs cs
      | Unquoted \<Rightarrow>
          if c = 0x22 then None
          else if c = 0x2C then read_loop FieldStart [] (fs @ [f]) rs cs
          else if c = 0x0A then read_loop FieldStart [] [] (rs @ [fs @ [f]]) cs
          else read_loop Unquoted (f @ [c]) fs rs cs
      | Quoted \<Rightarrow>
          if c = 0x22 then read_loop QuoteSeen f fs rs cs
          else read_loop Quoted (f @ [c]) fs rs cs
      | QuoteSeen \<Rightarrow>
          if c = 0x22 then read_loop Quoted (f @ [0x22]) fs rs cs
          else if c = 0x2C then read_loop FieldStart [] (fs @ [f]) rs cs
          else if c = 0x0A then read_loop FieldStart [] [] (rs @ [fs @ [f]]) cs
          else None)"

definition read_csv :: "jsstring \<Rightarrow> jsstring list list option" where
  "read_csv text =
     read_loop FieldStart [] [] [] (case text of c # cs \<Rightarrow> if c = 0xFEFF then cs else text | [] \<Rightarrow> [])"

section \<open>Collection orchestrator\<close>

text \<open>
  The state of the component \<open>App\<close> that \<open>handleScrape\<close> reads and writes.
\<close>

record app_state =
  units :: jsstring
  startDate :: jsstring
  endDate :: jsstring
  results :: "unit_result list"
  loading :: bool
  progress :: "nat \<times> nat"
  loginDialogOpen :: bool
  hasCredentials :: bool

text \<open>The body of the request to \<open>/api/scrape\<close>.\<close>

record scrape_request =
  req_units :: "jsstring list"
  start_date :: jsstring
  end_date :: jsstring

text \<open>
  What the backend does with the request is an input of the handler: \<open>fetch\<close> rejects
  with an error of the given message; or the response is not \<open>ok\<close> and has the given
  text; or the body is not an object with an array \<open>results\<close>, and reading it throws an
  error of the given message; or it carries the array \<open>data.results\<close>.
\<close>

datatype backend =
    Rejected jsstring
  | NotOk jsstring
  | Malformed jsstring
  | Success "unit_result list"

text \<open>
  The effects of the handler, in the order it performs them: the state setters, the
  dialogs, the request and the pacing delay. \<open>AppendResult r\<close> is
  \<open>setResults(prev => [...prev, r])\<close>.
\<close>

datatype effect =
    Alert jsstring
  | ConsoleError jsstring
  | SetLoginDialogOpen bool
  | SetLoading bool
  | SetResults "unit_result list"
  | AppendResult unit_result
  | SetProgress nat nat
  | Fetch scrape_request
  | Sleep nat

text \<open>The loop \<open>for (let i = 0; i < data.results.length; i++)\<close>.\<close>

function stream :: "unit_result list \<Rightarrow> nat \<Rightarrow> effect list" where
  "stream rs i =
     (if i < length rs
      then [SetProgress (i + 1) (length rs), AppendResult (rs ! i), Sleep 100] @ stream rs (i + 1)
      else [])"
  by pat_completeness auto
termination
  by (relation "measure (\<lambda>(rs, i). length rs - i)") auto

declare stream.simps [simp del]

text \<open>The \<open>catch\<close> block, for an error of message \<open>m\<close>.\<close>

definition catch_block :: "jsstring \<Rightarrow> effect list" where
  "catch_block m = [ConsoleError m, Alert (str ''Erro ao executar scraping: '' @ m)]"

text \<open>The \<open>try\<close> block after the request has been sent.\<close>

fun try_block :: "backend \<Rightarrow> effect list" where
  "try_block (Rejected m) = catch_block m"
| "try_block (NotOk body) = catch_block body"
| "try_block (Malformed m) = catch_block m"
| "try_block (Success rs) = stream rs 0"

definition handleScrape :: "app_state \<Rightarrow> backend \<Rightarrow> effect list" where
  "handleScrape s b =
     (if trim (units s) = [] then [Alert (str ''Informe pelo menos uma unidade!'')]
      else if startDate s = [] \<or> endDate s = []
      then [Alert (str ''Informe o per'' @ [0xED] @ str ''odo (data in'' @ [0xED] @ str ''cio e fim)!'')]
      else if \<not> hasCredentials s
      then [Alert (str ''Configure as credenciais de login primeiro!''), SetLoginDialogOpen True]
      else [SetLoading True, SetResults []] @
           (let unitList = unitList (units s)
            in [SetProgress 0 (length unitList),
                Fetch \<lparr>req_units = unitList, start_date = startDate s, end_date = endDate s\<rparr>]) @
           try_block b @
           [SetLoading False, SetProgress 0 0])"

text \<open>
  What an effect does to the state, and the state after a sequence of effects.
\<close>

fun apply_effect :: "app_state \<Rightarrow> effect \<Rightarrow> app_state" where
  "apply_effect s (SetLoginDialogOpen b) = s\<lparr>loginDialogOpen := b\<rparr>"
| "apply_effect s (SetLoading b) = s\<lparr>loading := b\<rparr>"
| "apply_effect s (SetResults rs) = s\<lparr>results := rs\<rparr>"
| "apply_effect s (AppendResult r) = s\<lparr>results := results s @ [r]\<rparr>"
| "apply_effect s (SetProgress c t) = s\<lparr>progress := (c, t)\<rparr>"
| "apply_effect s _ = s"

definition run :: "app_state \<Rightarrow> effect list \<Rightarrow> app_state" where
  "run s es = foldl apply_effect s es"

text \<open>
  The handler gives control back at each \<open>await\<close>, of the request and of the delay,
  and when it ends; the component is rendered with the state of those moments. These
  are the states an observer sees.
\<close>

fun is_await :: "effect \<Rightarrow> bool" where
  "is_await (Fetch _) = True"
| "is_await (Sleep _) = True"
| "is_await _ = False"

fun suspended :: "app_state \<Rightarrow> effect list \<Rightarrow> app_state list" where
  "suspended s [] = []"
| "suspended s (e # es) =
     (if is_await e then apply_effect s e # suspended (apply_effect s e) es
      else suspended (apply_effect s e) es)"

definition observed :: "app_state \<Rightarrow> effect list \<Rightarrow> app_state list" where
  "observed s es = suspended s es @ [run s es]"

text \<open>The three checks at the head of the handler all pass.\<close>

definition validated :: "app_state \<Rightarrow> bool" where
  "validated s \<longleftrightarrow> trim (units s) \<noteq> [] \<and> startDate s \<noteq> [] \<and> endDate s \<noteq> [] \<and> hasCredentials s"

section \<open>Example values\<close>

definition day1 :: daily_record where
  "day1 = \<lparr>date = str ''2024-01-01'', kg = Fin 5\<rparr>"

definition day2 :: daily_record where
  "day2 = \<lparr>date = str ''2024-01-02'', kg = Fin (15 / 2)\<rparr>"

definition unitA :: unit_result where
  "unitA = \<lparr>unit_id = str ''A'', total_kg = Some (Fin (25 / 2)), rows = Some [day1, day2],
            error = None\<rparr>"

definition unitB :: unit_result where
  "unitB = \<lparr>unit_id = str ''B'', total_kg = None, rows = None, error = Some (str ''timeout'')\<rparr>"

definition idle :: app_state where
  "idle = \<lparr>units = str ''A,B'', startDate = str ''2024-01-01'', endDate = str ''2024-01-31'',
           results = [], loading = False, progress = (0, 0), loginDialogOpen = False,
           hasCredentials = True\<rparr>"

text \<open>A unit that failed after the backend had stored a partial total of 3.\<close>

definition unitP :: unit_result where
  "unitP = \<lparr>unit_id = str ''P'', total_kg = Some (Fin 3), rows = None,
            error = Some (str ''timeout'')\<rparr>"

text \<open>
  Three units with the totals 0.1, 0.2 and 0.3: the binary64 values nearest to these
  decimals, which is what \<open>JSON.parse\<close> makes of them.
\<close>

definition unit01 :: unit_result where
  "unit01 = \<lparr>unit_id = str ''U1'', total_kg = Some (Fin (3602879701896397 / 36028797018963968)),
             rows = Some [], error = None\<rparr>"

definition unit02 :: unit_result where
  "unit02 = \<lparr>unit_id = str ''U2'', total_kg = Some (Fin (3602879701896397 / 18014398509481984)),
             rows = Some [], error = None\<rparr>"

definition unit03 :: unit_result where
  "unit03 = \<lparr>unit_id = str ''U3'', total_kg = Some (Fin (5404319552844595 / 18014398509481984)),
             rows = Some [], error = None\<rparr>"

text \<open>
  A unit with a total and no rows that carries an error; one whose error text holds a
  quotation;
  and one whose error text holds what closes its own row and writes the row of a unit
  Y, next to the two units it imitates.
\<close>

definition unitE :: unit_result where
  "unitE = \<lparr>unit_id = str ''E'', total_kg = Some (Fin 0), rows = Some [],
            error = Some (str ''timeout'')\<rparr>"

definition unitQ :: unit_result where
  "unitQ = \<lparr>unit_id = str ''Q'', total_kg = Some (Fin 0), rows = Some [],
            error = Some (str ''say \"hi\"'')\<rparr>"

definition unitX :: unit_result where
  "unitX = \<lparr>unit_id = str ''X'', total_kg = Some (Fin 0), rows = Some [],
            error = Some (str ''e\"\<newline>\"Y\",\"\",\"\",\"0.00\",\"f'')\<rparr>"

definition unitX' :: unit_result where
  "unitX' = \<lparr>unit_id = str ''X'', total_kg = Some (Fin 0), rows = Some [],
             error = Some (str ''e'')\<rparr>"

definition unitY :: unit_result where
  "unitY = \<lparr>unit_id = str ''Y'', total_kg = Some (Fin 0), rows = Some [],
            error = Some (str ''f'')\<rparr>"

section \<open>Proofs: the identifier parser\<close>

subsection \<open>The scan computes the pieces\<close>

lemma pieces_last:
  assumes "dropWhile (\<lambda>c. \<not> sep c) s = []"
  shows "pieces sep s = [takeWhile (\<lambda>c. \<not> sep c) s]"
  by (subst pieces.simps) (simp only: assms list.case)

lemma pieces_more:
  assumes "dropWhile (\<lambda>c. \<not> sep c) s = d # rest"
  shows "pieces sep s = takeWhile (\<lambda>c. \<not> sep c) s # pieces sep rest"
  by (subst pieces.simps) (simp only: assms list.case)

lemma pieces_Nil: "pieces sep [] = [[]]"
  by (simp add: pieces_last)

lemma pieces_sep: "sep c \<Longrightarrow> pieces sep (c # cs) = [] # pieces sep cs"
  using pieces_more [of sep "c # cs" c cs] by simp

lemma pieces_prefix:
  assumes "\<forall>c \<in> set cur. \<not> sep c"
  shows "pieces sep (cur @ s) = (cur @ hd (pieces sep s)) # tl (pieces sep s)"
proof -
  have tw: "takeWhile (\<lambda>c. \<not> sep c) (cur @ s) = cur @ takeWhile (\<lambda>c. \<not> sep c) s"
    using assms by (simp add: takeWhile_append2)
  have dw: "dropWhile (\<lambda>c. \<not> sep c) (cur @ s) = dropWhile (\<lambda>c. \<not> sep c) s"
    using assms by (simp add: dropWhile_append2)
  show ?thesis
  proof (cases "dropWhile (\<lambda>c. \<not> sep c) s")
    case Nil
    then have "dropWhile (\<lambda>c. \<not> sep c) (cur @ s) = []"
      by (simp only: dw)
    then show ?thesis
      by (simp only: pieces_last Nil tw list.sel)
  next
    case (Cons d rest)
    then have "dropWhile (\<lambda>c. \<not> sep c) (cur @ s) = d # rest"
      by (simp only: dw)
    then show ?thesis
      by (simp only: pieces_more Cons tw list.sel)
  qed
qed

lemma pieces_nonsep:
  assumes "\<not> sep c"
  shows "pieces sep (c # cs) = (c # hd (pieces sep cs)) # tl (pieces sep cs)"
  using pieces_prefix [of "[c]" sep cs] assms by simp

lemma pieces_not_Nil: "pieces sep s \<noteq> []"
proof (cases "dropWhile (\<lambda>c. \<not> sep c) s")
  case Nil
  then show ?thesis by (simp only: pieces_last) simp
next
  case (Cons d rest)
  then show ?thesis by (simp only: pieces_more) simp
qed

lemma split_loop_pieces:
  "split_loop sep cur s = (cur @ hd (pieces sep s)) # tl (pieces sep s)"
proof (induction s arbitrary: cur)
  case Nil
  show ?case by (simp add: pieces_Nil)
next
  case (Cons c cs)
  show ?case
  proof (cases "sep c")
    case True
    have "split_loop sep [] cs = pieces sep cs"
      using Cons.IH [of "[]"] pieces_not_Nil [of sep cs] by simp
    with True show ?thesis by (simp add: pieces_sep)
  next
    case False
    then show ?thesis by (simp add: Cons.IH pieces_nonsep)
  qed
qed

lemma split_re_pieces: "split_re sep s = pieces sep s"
  using split_loop_pieces [of sep "[]" s] pieces_not_Nil [of sep s]
  by (simp add: split_re_def)

lemma split_loop_no_sep:
  "\<forall>c \<in> set cur. \<not> sep c \<Longrightarrow> \<forall>p \<in> set (split_loop sep cur s). \<forall>c \<in> set p. \<not> sep c"
proof (induction s arbitrary: cur)
  case Nil
  then show ?case by simp
next
  case (Cons a s)
  show ?case
  proof (cases "sep a")
    case True
    have "\<forall>p \<in> set (split_loop sep [] s). \<forall>c \<in> set p. \<not> sep c"
      using Cons.IH [of "[]"] by simp
    with True Cons.prems show ?thesis by simp
  next
    case False
    with Cons.prems have "\<forall>c \<in> set (cur @ [a]). \<not> sep c" by simp
    from Cons.IH [OF this] False show ?thesis by simp
  qed
qed

lemma split_loop_length: "length (split_loop sep cur s) = Suc (length (filter sep s))"
  by (induction s arbitrary: cur) auto

lemma split_loop_weave: "weave (split_loop sep cur s) (filter sep s) = cur @ s"
proof (induction s arbitrary: cur)
  case Nil
  show ?case by simp
next
  case (Cons c cs)
  show ?case
  proof (cases "sep c")
    case True
    obtain q qs where q: "split_loop sep [] cs = q # qs"
      using split_loop_length [of sep "[]" cs] by (cases "split_loop sep [] cs") auto
    have "weave (q # qs) (filter sep cs) = cs"
      using Cons.IH [of "[]"] q by simp
    with True q show ?thesis by simp
  next
    case False
    then show ?thesis using Cons.IH [of "cur @ [c]"] by simp
  qed
qed


lemma trim_subset: "set (trim p) \<subseteq> set p"
  by (auto simp: trim_def dest!: set_dropWhileD)

lemma trim_ends:
  assumes "trim p \<noteq> []"
  shows "\<not> isWhiteSpace (hd (trim p)) \<and> \<not> isWhiteSpace (last (trim p))"
proof -
  let ?a = "dropWhile isWhiteSpace p"
  let ?b = "dropWhile isWhiteSpace (rev ?a)"
  have b: "?b \<noteq> []"
    using assms by (simp add: trim_def)
  then have a: "?a \<noteq> []"
    by (cases "?a = []") simp_all
  have "last (trim p) = hd ?b"
    using b by (simp add: trim_def last_rev)
  then have l: "\<not> isWhiteSpace (last (trim p))"
    using hd_dropWhile [OF b] by simp
  have "hd (trim p) = last ?b"
    using b by (simp add: trim_def hd_rev)
  also have "\<dots> = last (rev ?a)"
    using b by (metis last_appendR takeWhile_dropWhile_id)
  also have "\<dots> = hd ?a"
    using a by (simp add: last_rev)
  finally have "\<not> isWhiteSpace (hd (trim p))"
    using hd_dropWhile [OF a] by simp
  with l show ?thesis by simp
qed

text \<open>
  Every identifier of the list is a non-empty text without separator that neither
  starts nor ends with white space.
\<close>

lemma unitList_identifiers:
  assumes "u \<in> set (unitList s)"
  shows "u \<noteq> [] \<and> (\<forall>c \<in> set u. \<not> isSeparator c) \<and> \<not> isWhiteSpace (hd u) \<and> \<not> isWhiteSpace (last u)"
proof -
  from assms obtain p where p: "p \<in> set (split_loop isSeparator [] s)" and u: "u = trim p" "u \<noteq> []"
    by (auto simp: unitList_def split_re_def)
  have "\<forall>c \<in> set p. \<not> isSeparator c"
    using split_loop_no_sep [of "[]" isSeparator s] p by simp
  then have "\<forall>c \<in> set u. \<not> isSeparator c"
    using trim_subset [of p] u(1) by auto
  with u trim_ends [of p] show ?thesis by simp
qed

lemma unitList_example:
  "unitList (str ''101, 102;\<newline>103 ,'') = [str ''101'', str ''102'', str ''103'']"
  by (simp add: unitList_def split_re_def trim_def isSeparator_def isWhiteSpace_def str_def)

text \<open>
  C3. For every input string the identifier parser returns the pieces of the string
  between commas, semicolons and newlines, each trimmed of white space, the empty ones
  dropped, in their order from left to right; \<open>"101, 102;\n103 ,"\<close> gives
  \<open>["101", "102", "103"]\<close>.
\<close>

theorem unitList_is_parse_spec:
  "unitList s = parse_spec s \<and>
   unitList (str ''101, 102;\<newline>103 ,'') = [str ''101'', str ''102'', str ''103'']"
proof
  show "unitList s = parse_spec s"
    by (simp add: unitList_def parse_spec_def split_re_pieces)
  show "unitList (str ''101, 102;\<newline>103 ,'') = [str ''101'', str ''102'', str ''103'']"
    by (rule unitList_example)
qed

section \<open>Proofs: the collection orchestrator\<close>

subsection \<open>Sequences of effects\<close>

lemma run_append: "run s (xs @ ys) = run (run s xs) ys"
  by (simp add: run_def)

lemma run_Cons: "run s (e # es) = run (apply_effect s e) es"
  by (simp add: run_def)

lemma run_Nil: "run s [] = s"
  by (simp add: run_def)

lemma suspended_append: "suspended s (xs @ ys) = suspended s xs @ suspended (run s xs) ys"
  by (induction xs arbitrary: s) (simp_all add: run_Nil run_Cons)

lemma observed_append:
  "observed s (xs @ ys) = suspended s xs @ observed (run s xs) ys"
  by (simp add: observed_def suspended_append run_append)

subsection \<open>The streaming loop\<close>

lemma stream_done: "length rs \<le> i \<Longrightarrow> stream rs i = []"
  by (subst stream.simps) simp

lemma stream_step:
  "i < length rs \<Longrightarrow>
   stream rs i = [SetProgress (i + 1) (length rs), AppendResult (rs ! i), Sleep 100] @ stream rs (i + 1)"
  by (subst stream.simps) simp

lemma stream_closed:
  "stream rs i =
   concat (map (\<lambda>k. [SetProgress (k + 1) (length rs), AppendResult (rs ! k), Sleep 100]) [i..<length rs])"
proof (induction rs i rule: stream.induct)
  case (1 rs i)
  show ?case
  proof (cases "i < length rs")
    case True
    then show ?thesis
      using "1.IH" by (simp add: stream_step upt_conv_Cons)
  next
    case False
    then show ?thesis by (simp add: stream_done)
  qed
qed

lemma suspended_stream:
  "results t = take i rs \<Longrightarrow>
   suspended t (stream rs i) =
   map (\<lambda>k. t\<lparr>results := take k rs, progress := (k, length rs)\<rparr>) [Suc i..<Suc (length rs)]"
proof (induction rs i arbitrary: t rule: stream.induct)
  case (1 rs i)
  show ?case
  proof (cases "i < length rs")
    case True
    let ?t' = "t\<lparr>results := take (Suc i) rs, progress := (Suc i, length rs)\<rparr>"
    have step: "run t [SetProgress (i + 1) (length rs), AppendResult (rs ! i), Sleep 100] = ?t'"
      using True "1.prems" by (simp add: run_def take_Suc_conv_app_nth)
    have "suspended ?t' (stream rs (i + 1)) =
          map (\<lambda>k. ?t'\<lparr>results := take k rs, progress := (k, length rs)\<rparr>)
            [Suc (i + 1)..<Suc (length rs)]"
      using True by (intro "1.IH") simp_all
    then have rest: "suspended ?t' (stream rs (i + 1)) =
          map (\<lambda>k. t\<lparr>results := take k rs, progress := (k, length rs)\<rparr>)
            [Suc (Suc i)..<Suc (length rs)]"
      by simp
    have first: "suspended t [SetProgress (i + 1) (length rs), AppendResult (rs ! i), Sleep 100] = [?t']"
      using True "1.prems" by (simp add: take_Suc_conv_app_nth)
    have "[Suc i..<Suc (length rs)] = Suc i # [Suc (Suc i)..<Suc (length rs)]"
      using True by (simp add: upt_conv_Cons)
    then show ?thesis
      using True by (simp only: stream_step [OF True] suspended_append step rest first) simp
  next
    case False
    then show ?thesis by (simp add: stream_done)
  qed
qed

lemma run_stream:
  "results t = take i rs \<Longrightarrow> i \<le> length rs \<Longrightarrow>
   run t (stream rs i) =
   (if i < length rs then t\<lparr>results := rs, progress := (length rs, length rs)\<rparr> else t)"
proof (induction rs i arbitrary: t rule: stream.induct)
  case (1 rs i)
  show ?case
  proof (cases "i < length rs")
    case True
    let ?t' = "t\<lparr>results := take (Suc i) rs, progress := (Suc i, length rs)\<rparr>"
    have step: "run t [SetProgress (i + 1) (length rs), AppendResult (rs ! i), Sleep 100] = ?t'"
      using True "1.prems" by (simp add: run_def take_Suc_conv_app_nth)
    have "run ?t' (stream rs (i + 1)) =
          (if i + 1 < length rs then ?t'\<lparr>results := rs, progress := (length rs, length rs)\<rparr> else ?t')"
      using True by (intro "1.IH") simp_all
    then have rest: "run ?t' (stream rs (i + 1)) = t\<lparr>results := rs, progress := (length rs, length rs)\<rparr>"
      using True by (cases "Suc i = length rs") auto
    show ?thesis
      using True by (simp only: stream_step [OF True] run_append step rest) simp
  next
    case False
    then show ?thesis by (simp add: stream_done run_Nil)
  qed
qed

subsection \<open>The handler\<close>

lemma handleScrape_validated:
  assumes "validated s"
  shows "handleScrape s b =
         [SetLoading True, SetResults [], SetProgress 0 (length (unitList (units s))),
          Fetch \<lparr>req_units = unitList (units s), start_date = startDate s, end_date = endDate s\<rparr>] @
         try_block b @ [SetLoading False, SetProgress 0 0]"
  using assms by (simp add: handleScrape_def validated_def Let_def)

lemma handleScrape_rejected:
  assumes "\<not> validated s"
  shows "\<forall>e \<in> set (handleScrape s b). \<not> is_await e"
    and "run s (handleScrape s b) = s \<or> run s (handleScrape s b) = s\<lparr>loginDialogOpen := True\<rparr>"
  using assms by (auto simp: handleScrape_def validated_def run_def)

lemma handleScrape_fetches:
  assumes "validated s"
  shows "Fetch \<lparr>req_units = unitList (units s), start_date = startDate s, end_date = endDate s\<rparr>
         \<in> set (handleScrape s b)"
  by (simp add: handleScrape_validated [OF assms])

lemma validated_idle: "validated idle"
  by (simp add: validated_def idle_def trim_def isWhiteSpace_def str_def)

text \<open>
  C4. For a successful response with N results the handler, after the request, performs
  for i = 0, ..., N - 1 in turn the progress update (i + 1, N), the append of the i-th
  result and the pacing delay, and nothing else before the final reset: N progress
  updates, with \<open>current\<close> going from 1 to N and \<open>total\<close> equal to N. An observer sees,
  between the state that awaits the backend and the final state, exactly N states, the
  k-th with progress (k, N) and the first k results of the backend in their order.
\<close>

theorem streaming_delivers_one_by_one:
  assumes "validated s"
  shows "handleScrape s (Success rs) =
           [SetLoading True, SetResults [], SetProgress 0 (length (unitList (units s))),
            Fetch \<lparr>req_units = unitList (units s), start_date = startDate s, end_date = endDate s\<rparr>] @
           concat (map (\<lambda>i. [SetProgress (i + 1) (length rs), AppendResult (rs ! i), Sleep 100])
                     [0..<length rs]) @
           [SetLoading False, SetProgress 0 0] \<and>
         observed s (handleScrape s (Success rs)) =
           [s\<lparr>results := [], loading := True, progress := (0, length (unitList (units s)))\<rparr>] @
           map (\<lambda>k. s\<lparr>results := take k rs, loading := True, progress := (k, length rs)\<rparr>)
             [1..<Suc (length rs)] @
           [s\<lparr>results := rs, loading := False, progress := (0, 0)\<rparr>]"
proof
  show "handleScrape s (Success rs) =
           [SetLoading True, SetResults [], SetProgress 0 (length (unitList (units s))),
            Fetch \<lparr>req_units = unitList (units s), start_date = startDate s, end_date = endDate s\<rparr>] @
           concat (map (\<lambda>i. [SetProgress (i + 1) (length rs), AppendResult (rs ! i), Sleep 100])
                     [0..<length rs]) @
           [SetLoading False, SetProgress 0 0]"
    by (simp add: handleScrape_validated [OF assms] stream_closed)
next
  let ?n = "length (unitList (units s))"
  let ?pre = "[SetLoading True, SetResults [], SetProgress 0 ?n,
     Fetch \<lparr>req_units = unitList (units s), start_date = startDate s, end_date = endDate s\<rparr>]"
  let ?t = "s\<lparr>results := [], loading := True, progress := (0, ?n)\<rparr>"
  have pre_run: "run s ?pre = ?t"
    by (simp add: run_def)
  have pre_susp: "suspended s ?pre = [?t]"
    by simp
  have loop_susp: "suspended ?t (stream rs 0) =
      map (\<lambda>k. ?t\<lparr>results := take k rs, progress := (k, length rs)\<rparr>) [Suc 0..<Suc (length rs)]"
    by (rule suspended_stream) simp
  have loop_run: "run ?t (stream rs 0) =
      (if 0 < length rs then ?t\<lparr>results := rs, progress := (length rs, length rs)\<rparr> else ?t)"
    by (rule run_stream) simp_all
  have fin: "run (run ?t (stream rs 0)) [SetLoading False, SetProgress 0 0] =
      s\<lparr>results := rs, loading := False, progress := (0, 0)\<rparr>"
    by (simp only: loop_run) (simp add: run_def)
  have "observed s (handleScrape s (Success rs)) =
        suspended s ?pre @ suspended ?t (stream rs 0) @
        observed (run ?t (stream rs 0)) [SetLoading False, SetProgress 0 0]"
    by (simp only: handleScrape_validated [OF assms] observed_append pre_run try_block.simps)
  also have "observed (run ?t (stream rs 0)) [SetLoading False, SetProgress 0 0] =
        [s\<lparr>results := rs, loading := False, progress := (0, 0)\<rparr>]"
    using fin by (simp add: observed_def)
  finally show "observed s (handleScrape s (Success rs)) =
           [s\<lparr>results := [], loading := True, progress := (0, length (unitList (units s)))\<rparr>] @
           map (\<lambda>k. s\<lparr>results := take k rs, loading := True, progress := (k, length rs)\<rparr>)
             [1..<Suc (length rs)] @
           [s\<lparr>results := rs, loading := False, progress := (0, 0)\<rparr>]"
    by (simp add: pre_susp loop_susp)
qed

theorem streaming_delivers_one_by_one_witness:
  "validated idle \<and>
   map (\<lambda>t. (progress t, results t)) (observed idle (handleScrape idle (Success [unitA, unitB]))) =
     [((0, 2), []), ((1, 2), [unitA]), ((2, 2), [unitA, unitB]), ((0, 0), [unitA, unitB])]"
proof -
  have n: "unitList (units idle) = [str ''A'', str ''B'']"
    by (simp add: idle_def unitList_def split_re_def trim_def isSeparator_def isWhiteSpace_def
        str_def)
  have "observed idle (handleScrape idle (Success [unitA, unitB])) =
          [idle\<lparr>results := [], loading := True, progress := (0, length (unitList (units idle)))\<rparr>] @
          map (\<lambda>k. idle\<lparr>results := take k [unitA, unitB], loading := True,
                         progress := (k, length [unitA, unitB])\<rparr>)
            [1..<Suc (length [unitA, unitB])] @
          [idle\<lparr>results := [unitA, unitB], loading := False, progress := (0, 0)\<rparr>]"
    using streaming_delivers_one_by_one [OF validated_idle, of "[unitA, unitB]"]
    by (rule conjunct2)
  then show ?thesis
    by (simp add: validated_idle n upt_conv_Cons)
qed

text \<open>
  C5. When the request fails at the network level, by a rejected \<open>fetch\<close> or a
  response that is not a success, the handler appends no result: the observer sees the
  emptied result sequence while the backend is awaited and when the run has ended, the
  alert carries the message of the error as it was received, and the run ends with the
  loading flag off and the inputs untouched, so that another run may start.
\<close>

theorem transport_error_leaves_no_results:
  assumes "validated s" and "b = Rejected m \<or> b = NotOk m"
  shows "handleScrape s b =
           [SetLoading True, SetResults [], SetProgress 0 (length (unitList (units s))),
            Fetch \<lparr>req_units = unitList (units s), start_date = startDate s, end_date = endDate s\<rparr>,
            ConsoleError m, Alert (str ''Erro ao executar scraping: '' @ m),
            SetLoading False, SetProgress 0 0] \<and>
         observed s (handleScrape s b) =
           [s\<lparr>results := [], loading := True, progress := (0, length (unitList (units s)))\<rparr>,
            s\<lparr>results := [], loading := False, progress := (0, 0)\<rparr>] \<and>
         validated (run s (handleScrape s b))"
  using assms
  by (auto simp: handleScrape_validated catch_block_def observed_def run_def validated_def)

theorem transport_error_leaves_no_results_witness:
  "validated idle \<and>
   map results (observed (idle\<lparr>results := [unitA]\<rparr>)
     (handleScrape (idle\<lparr>results := [unitA]\<rparr>) (NotOk (str ''503'')))) = [[], []] \<and>
   Alert (str ''Erro ao executar scraping: 503'') \<in>
     set (handleScrape (idle\<lparr>results := [unitA]\<rparr>) (NotOk (str ''503'')))"
proof -
  have v: "validated (idle\<lparr>results := [unitA]\<rparr>)"
    using validated_idle by (simp add: validated_def)
  have b: "NotOk (str ''503'') = Rejected (str ''503'') \<or> NotOk (str ''503'') = NotOk (str ''503'')"
    by simp
  show ?thesis
    using transport_error_leaves_no_results [OF v b] validated_idle
    by (simp add: str_def observed_def run_def)
qed

text \<open>
  C9. Every run that passed the checks and reached the request ends with the loading
  flag off and the progress counter at (0, 0), whatever the backend did: the results
  were streamed, the request failed, or the body of the response could not be read.
\<close>

theorem run_ends_reset:
  assumes "validated s"
  shows "loading (run s (handleScrape s b)) = False \<and> progress (run s (handleScrape s b)) = (0, 0)"
  by (simp add: handleScrape_validated [OF assms] run_append) (simp add: run_def)

theorem run_ends_reset_witness:
  "validated idle \<and>
   loading (run idle (handleScrape idle (Malformed (str ''Unexpected token'')))) = False \<and>
   progress (run idle (handleScrape idle (Malformed (str ''Unexpected token'')))) = (0, 0)"
  using run_ends_reset [OF validated_idle, of "Malformed (str ''Unexpected token'')"] validated_idle
  by simp

text \<open>
  C2. The first check of the handler tests the trimmed text of the field, not the parsed
  list: for the text \<open>","\<close> the list of identifiers is empty, the check passes, and the
  request is sent with an empty list.
\<close>

theorem separators_only_reaches_backend:
  "unitList (str '','') = [] \<and>
   handleScrape (idle\<lparr>units := str '',''\<rparr>) b =
     [SetLoading True, SetResults [], SetProgress 0 0,
      Fetch \<lparr>req_units = [], start_date = str ''2024-01-01'', end_date = str ''2024-01-31''\<rparr>] @
     try_block b @ [SetLoading False, SetProgress 0 0]"
proof
  show u: "unitList (str '','') = []"
    by (simp add: unitList_def split_re_def trim_def isSeparator_def isWhiteSpace_def str_def)
  have v: "validated (idle\<lparr>units := str '',''\<rparr>)"
    by (simp add: validated_def idle_def trim_def isWhiteSpace_def str_def)
  show "handleScrape (idle\<lparr>units := str '',''\<rparr>) b =
     [SetLoading True, SetResults [], SetProgress 0 0,
      Fetch \<lparr>req_units = [], start_date = str ''2024-01-01'', end_date = str ''2024-01-31''\<rparr>] @
     try_block b @ [SetLoading False, SetProgress 0 0]"
    by (simp add: handleScrape_validated [OF v] u) (simp add: idle_def)
qed

section \<open>Proofs: numbers\<close>

lemma pow2_powi: "pow2 e = 2 powi e"
  by (simp add: pow2_def power_int_def inverse_eq_divide power_one_over)

lemma pow2_pos: "0 < pow2 e"
  by (simp add: pow2_powi)

lemma pow2_add: "pow2 (a + b) = pow2 a * pow2 b"
  by (simp add: pow2_powi power_int_add)

lemma pow2_nat: "pow2 (int n) = 2 ^ n"
  by (simp add: pow2_def)

lemma pow2_neg_nat: "pow2 (- int n) = 1 / 2 ^ n"
  by (simp add: pow2_powi power_int_minus_divide)

lemma pow2_strict_mono: "a < b \<Longrightarrow> pow2 a < pow2 b"
  by (simp add: pow2_powi power_int_strict_increasing)

lemma pow2_mono: "a \<le> b \<Longrightarrow> pow2 a \<le> pow2 b"
  by (simp add: pow2_powi power_int_increasing)

text \<open>The exponent \<open>ilog2\<close> computes is the binary exponent.\<close>

lemma ilog2_bounds:
  assumes "x \<noteq> 0"
  shows "pow2 (ilog2 x) \<le> \<bar>x\<bar> \<and> \<bar>x\<bar> < pow2 (ilog2 x + 1)"
proof (cases "1 \<le> \<bar>x\<bar>")
  case True
  define n where "n = nat \<lfloor>\<bar>x\<bar>\<rfloor>"
  have n1: "0 < n"
    using True by (simp add: n_def)
  have "(of_nat n :: rat) = of_int \<lfloor>\<bar>x\<bar>\<rfloor>"
    by (simp add: n_def)
  then have fl: "of_nat n \<le> \<bar>x\<bar>" "\<bar>x\<bar> < of_nat n + 1"
    using floor_correct [of "\<bar>x\<bar>"] by simp_all
  from floorlog_bounds [OF n1, of 2]
  have b: "2 ^ (floorlog 2 n - 1) \<le> n" "n < 2 ^ floorlog 2 n"
    by simp_all
  have b0: "0 < floorlog 2 n"
    using b(2) n1 by (cases "floorlog 2 n") simp_all
  have e: "ilog2 x = int (floorlog 2 n - 1)" "ilog2 x + 1 = int (floorlog 2 n)"
    using True b0 by (simp_all add: ilog2_def n_def)
  have p: "pow2 (ilog2 x) = 2 ^ (floorlog 2 n - 1)" "pow2 (ilog2 x + 1) = 2 ^ floorlog 2 n"
    by (subst e(1), rule pow2_nat) (subst e(2), rule pow2_nat)
  have "(2::rat) ^ (floorlog 2 n - 1) \<le> of_nat n"
    using b(1) by (metis of_nat_le_iff of_nat_numeral of_nat_power)
  with fl(1) have lo: "pow2 (ilog2 x) \<le> \<bar>x\<bar>"
    unfolding p by linarith
  have "n + 1 \<le> 2 ^ floorlog 2 n"
    using b(2) by simp
  then have "(of_nat (n + 1) :: rat) \<le> 2 ^ floorlog 2 n"
    by (metis of_nat_le_iff of_nat_numeral of_nat_power)
  then have "(of_nat n :: rat) + 1 \<le> 2 ^ floorlog 2 n"
    by simp
  with fl(2) have hi: "\<bar>x\<bar> < pow2 (ilog2 x + 1)"
    unfolding p by linarith
  from lo hi show ?thesis ..
next
  case False
  define y where "y = 1 / \<bar>x\<bar>"
  have x0: "0 < \<bar>x\<bar>" and x1: "\<bar>x\<bar> < 1"
    using assms False by simp_all
  have y1: "1 < y"
    using x0 x1 by (simp add: y_def)
  define m where "m = nat (\<lceil>y\<rceil> - 1)"
  have c2: "2 \<le> \<lceil>y\<rceil>"
    using y1 by (simp add: le_ceiling_iff) 
  have m1: "0 < m"
    using c2 by (simp add: m_def)
  have "(of_nat m :: rat) = of_int \<lceil>y\<rceil> - 1"
    using c2 by (simp add: m_def)
  then have my: "of_nat m < y" "y \<le> of_nat m + 1"
    using ceiling_correct [of y] by simp_all
  from floorlog_bounds [OF m1, of 2]
  have b: "2 ^ (floorlog 2 m - 1) \<le> m" "m < 2 ^ floorlog 2 m"
    by simp_all
  have b0: "0 < floorlog 2 m"
    using b(2) m1 by (cases "floorlog 2 m") simp_all
  have e: "ilog2 x = - int (floorlog 2 m)"
    using False by (simp add: ilog2_def m_def y_def)
  have e1: "ilog2 x + 1 = - int (floorlog 2 m - 1)"
    using b0 by (simp add: e)
  have p: "pow2 (ilog2 x) = 1 / 2 ^ floorlog 2 m" "pow2 (ilog2 x + 1) = 1 / 2 ^ (floorlog 2 m - 1)"
    by (subst e, rule pow2_neg_nat) (subst e1, rule pow2_neg_nat)
  have "m + 1 \<le> 2 ^ floorlog 2 m"
    using b(2) by simp
  then have "(of_nat (m + 1) :: rat) \<le> 2 ^ floorlog 2 m"
    by (metis of_nat_le_iff of_nat_numeral of_nat_power)
  then have "(of_nat m :: rat) + 1 \<le> 2 ^ floorlog 2 m"
    by simp
  with my(2) have "1 / \<bar>x\<bar> \<le> 2 ^ floorlog 2 m"
    unfolding y_def by linarith
  then have lo: "pow2 (ilog2 x) \<le> \<bar>x\<bar>"
    unfolding p using x0 by (simp add: field_simps)
  have "(2::rat) ^ (floorlog 2 m - 1) \<le> of_nat m"
    using b(1) by (metis of_nat_le_iff of_nat_numeral of_nat_power)
  with my(1) have "2 ^ (floorlog 2 m - 1) < 1 / \<bar>x\<bar>"
    unfolding y_def by linarith
  then have hi: "\<bar>x\<bar> < pow2 (ilog2 x + 1)"
    unfolding p using x0 by (simp add: field_simps)
  from lo hi show ?thesis ..
qed

lemma ilog2_less: "x \<noteq> 0 \<Longrightarrow> \<bar>x\<bar> < pow2 n \<Longrightarrow> ilog2 x < n"
proof (rule ccontr)
  assume x: "x \<noteq> 0" and b: "\<bar>x\<bar> < pow2 n" and "\<not> ilog2 x < n"
  then have "pow2 n \<le> pow2 (ilog2 x)"
    by (intro pow2_mono) simp
  with ilog2_bounds [OF x] b show False by linarith
qed

lemma ilog2_ge: "x \<noteq> 0 \<Longrightarrow> pow2 n \<le> \<bar>x\<bar> \<Longrightarrow> n \<le> ilog2 x"
proof (rule ccontr)
  assume x: "x \<noteq> 0" and b: "pow2 n \<le> \<bar>x\<bar>" and "\<not> n \<le> ilog2 x"
  then have "pow2 (ilog2 x + 1) \<le> pow2 n"
    by (intro pow2_mono) simp
  with ilog2_bounds [OF x] b show False by linarith
qed

lemma roundTiesToEven_of_int: "roundTiesToEven (of_int n) = n"
  by (simp add: roundTiesToEven_def)

text \<open>
  Rounding does not change a value that is a binary64 number: here, an integer of
  magnitude at most \<open>2\<^sup>5\<^sup>3\<close> divided by \<open>2\<^sup>j\<close>, for \<open>j\<close> up to 1074.
\<close>

lemma round64_on_grid:
  assumes x: "x \<noteq> 0" and grid: "x = of_int n * pow2 (max (ilog2 x) (- 1022) - 52)"
    and small: "\<bar>x\<bar> < 2 ^ 1024"
  shows "round64 x = Fin x"
proof -
  let ?q = "pow2 (max (ilog2 x) (- 1022) - 52)"
  have "x / ?q = of_int n"
    using grid pow2_pos [of "max (ilog2 x) (- 1022) - 52"] by (simp add: field_simps)
  then have "of_int (roundTiesToEven (x / ?q)) * ?q = x"
    using grid by (simp add: roundTiesToEven_of_int)
  then show ?thesis
    using x small by (simp add: round64_def Let_def)
qed

lemma round64_exact:
  assumes k: "\<bar>k\<bar> \<le> 2 ^ 53" and j: "j \<le> 1074"
  shows "round64 (of_int k / 2 ^ j) = Fin (of_int k / 2 ^ j)"
proof (cases "k = 0")
  case True
  then show ?thesis by (simp add: round64_def)
next
  case False
  define x :: rat where "x = of_int k / 2 ^ j"
  define e where "e = max (ilog2 x) (- 1022)"
  have x0: "x \<noteq> 0"
    using False by (simp add: x_def)
  have xk: "x = of_int k * pow2 (- int j)"
    by (simp add: x_def pow2_neg_nat)
  have absx: "\<bar>x\<bar> = of_int \<bar>k\<bar> * pow2 (- int j)"
    using pow2_pos [of "- int j"] by (simp add: xk abs_mult)
  have "(of_int \<bar>k\<bar> :: rat) \<le> 2 ^ 53"
    using k by (metis of_int_le_iff of_int_numeral of_int_power)
  then have "(of_int \<bar>k\<bar> :: rat) \<le> pow2 53"
    by (simp add: pow2_def)
  then have "\<bar>x\<bar> \<le> pow2 53 * pow2 (- int j)"
    unfolding absx using pow2_pos [of "- int j"] by (intro mult_right_mono) simp_all
  then have ub: "\<bar>x\<bar> \<le> pow2 (53 - int j)"
    by (simp add: pow2_add [symmetric])
  have "pow2 (53 - int j) \<le> pow2 53"
    by (intro pow2_mono) simp
  also have "pow2 53 < 2 ^ 1024"
    by (simp add: pow2_def)
  finally have small: "\<bar>x\<bar> < 2 ^ 1024"
    using ub by linarith
  have "\<exists>n. x = of_int n * pow2 (e - 52)"
  proof (cases "\<bar>k\<bar> = 2 ^ 53")
    case True
    then have "(of_int \<bar>k\<bar> :: rat) = pow2 53"
      by (simp add: pow2_def)
    then have ax: "\<bar>x\<bar> = pow2 (53 - int j)"
      by (simp add: absx pow2_add [symmetric])
    have "53 - int j \<le> ilog2 x"
      using x0 ax by (intro ilog2_ge) simp_all
    moreover have "ilog2 x < 54 - int j"
      using x0 ax pow2_strict_mono [of "53 - int j" "54 - int j"] by (intro ilog2_less) simp_all
    ultimately have "ilog2 x = 53 - int j" by simp
    then have e: "e = 53 - int j"
      using j by (simp add: e_def)
    have "even k"
      using True by (cases "0 \<le> k") (simp_all add: abs_if, presburger+)
    then obtain h where h: "k = 2 * h" by (elim evenE)
    have "pow2 (e - 52) = 2 * pow2 (- int j)"
      using pow2_add [of 1 "- int j"] by (simp add: e pow2_def)
    then have "x = of_int h * pow2 (e - 52)"
      by (simp add: xk h)
    then show ?thesis ..
  next
    case False
    with k have "\<bar>k\<bar> < 2 ^ 53" by simp
    then have "(of_int \<bar>k\<bar> :: rat) < 2 ^ 53"
      by (metis of_int_less_iff of_int_numeral of_int_power)
    then have "(of_int \<bar>k\<bar> :: rat) < pow2 53"
      by (simp add: pow2_def)
    then have "\<bar>x\<bar> < pow2 53 * pow2 (- int j)"
      unfolding absx using pow2_pos [of "- int j"] by (intro mult_strict_right_mono) simp_all
    then have "\<bar>x\<bar> < pow2 (53 - int j)"
      by (simp add: pow2_add [symmetric])
    with x0 have "ilog2 x < 53 - int j"
      by (rule ilog2_less)
    then have le: "e \<le> 52 - int j"
      using j by (simp add: e_def)
    define d where "d = nat (52 - int j - e)"
    have "- int j = int d + (e - 52)"
      using le by (simp add: d_def)
    then have "pow2 (- int j) = 2 ^ d * pow2 (e - 52)"
      by (simp only: pow2_add pow2_nat)
    then have "x = of_int (k * 2 ^ d) * pow2 (e - 52)"
      by (simp add: xk)
    then show ?thesis ..
  qed
  then obtain n where "x = of_int n * pow2 (max (ilog2 x) (- 1022) - 52)"
    unfolding e_def ..
  with x0 small have "round64 x = Fin x"
    by (intro round64_on_grid)
  then show ?thesis
    by (simp only: x_def)
qed

text \<open>
  A left-to-right sum of non-negative multiples of \<open>1 / 2\<^sup>j\<close> is exact as long as it
  stays within 53 bits.
\<close>

lemma on_grid_Fin:
  assumes "on_grid j t"
  obtains k :: nat where "t = Fin (of_nat k / 2 ^ j)"
proof -
  from assms obtain r where t: "t = Fin r" and r: "0 \<le> r" "of_int \<lfloor>r * 2 ^ j\<rfloor> = r * 2 ^ j"
    by (cases t) simp_all
  have "0 \<le> \<lfloor>r * 2 ^ j\<rfloor>"
    using r(1) by simp
  then have "(of_nat (nat \<lfloor>r * 2 ^ j\<rfloor>) :: rat) = r * 2 ^ j"
    using r(2) by simp
  then have "r = of_nat (nat \<lfloor>r * 2 ^ j\<rfloor>) / 2 ^ j"
    by simp
  with t that show thesis by blast
qed

lemma on_grid_of_nat: "on_grid j (Fin (of_nat k / 2 ^ j))"
  by simp

lemma num_value_nonneg: "on_grid j t \<Longrightarrow> 0 \<le> num_value t"
  by (cases t) simp_all

lemma sum_list_nonneg_grid: "\<forall>t \<in> set ts. on_grid j t \<Longrightarrow> 0 \<le> (\<Sum>t\<leftarrow>ts. num_value t)"
  by (induction ts) (auto intro: add_nonneg_nonneg num_value_nonneg)

lemma foldl_js_add_exact:
  assumes "j \<le> 1074"
  shows "\<forall>t \<in> set ts. on_grid j t \<Longrightarrow>
         (of_nat a / 2 ^ j + (\<Sum>t\<leftarrow>ts. num_value t)) * 2 ^ j \<le> 2 ^ 53 \<Longrightarrow>
         foldl js_add (Fin (of_nat a / 2 ^ j)) ts = Fin (of_nat a / 2 ^ j + (\<Sum>t\<leftarrow>ts. num_value t))"
proof (induction ts arbitrary: a)
  case Nil
  show ?case by simp
next
  case (Cons t ts)
  from Cons.prems(1) have "on_grid j t" by simp
  then obtain k :: nat where t: "t = Fin (of_nat k / 2 ^ j)"
    by (rule on_grid_Fin)
  have rest: "\<forall>t \<in> set ts. on_grid j t"
    using Cons.prems(1) by simp
  have sum: "of_nat a / 2 ^ j + of_nat k / 2 ^ j = (of_nat (a + k) :: rat) / 2 ^ j"
    by (simp add: add_divide_distrib)
  have eq: "of_nat a / 2 ^ j + (\<Sum>t\<leftarrow>t # ts. num_value t) =
      of_nat (a + k) / 2 ^ j + (\<Sum>t\<leftarrow>ts. num_value t)"
    by (simp add: t add_divide_distrib)
  have bound: "(of_nat (a + k) / 2 ^ j + (\<Sum>t\<leftarrow>ts. num_value t)) * 2 ^ j \<le> (2 ^ 53 :: rat)"
    using Cons.prems(2) unfolding eq .
  have "(of_nat (a + k) / 2 ^ j + (\<Sum>t\<leftarrow>ts. num_value t)) * 2 ^ j =
      (of_nat (a + k) :: rat) + (\<Sum>t\<leftarrow>ts. num_value t) * 2 ^ j"
    by (simp only: distrib_right) simp
  moreover have "0 \<le> (\<Sum>t\<leftarrow>ts. num_value t) * (2 ^ j :: rat)"
    using sum_list_nonneg_grid [OF rest] by simp
  ultimately have "(of_nat (a + k) :: rat) \<le> 2 ^ 53"
    using bound by linarith
  then have "(of_int (int (a + k)) :: rat) \<le> of_int (2 ^ 53)"
    by simp
  then have "\<bar>int (a + k)\<bar> \<le> 2 ^ 53"
    by (simp only: of_int_le_iff abs_of_nat)
  from round64_exact [OF this assms]
  have "js_add (Fin (of_nat a / 2 ^ j)) t = Fin (of_nat (a + k) / 2 ^ j)"
    by (simp add: t sum)
  then have "foldl js_add (Fin (of_nat a / 2 ^ j)) (t # ts) =
      Fin (of_nat (a + k) / 2 ^ j + (\<Sum>t\<leftarrow>ts. num_value t))"
    using Cons.IH [OF rest bound] by simp
  then show ?case
    unfolding eq .
qed

lemma js_sum_exact:
  assumes "j \<le> 1074" "\<forall>t \<in> set ts. on_grid j t" "(\<Sum>t\<leftarrow>ts. num_value t) * 2 ^ j \<le> 2 ^ 53"
  shows "foldl js_add (Fin 0) ts = Fin (\<Sum>t\<leftarrow>ts. num_value t)"
  using foldl_js_add_exact [OF assms(1), of ts 0] assms(2,3) by simp

subsection \<open>Two decimals\<close>

lemma digits_nonempty: "digits n \<noteq> []"
  by (subst digits.simps) simp

lemma digit_range:
  assumes "d < 10"
  shows "(0x30 :: jschar) \<le> of_nat (48 + d) \<and> (of_nat (48 + d) :: jschar) \<le> 0x39"
proof -
  from assms have "d \<in> {0, 1, 2, 3, 4, 5, 6, 7, 8, 9}"
    by auto
  then show ?thesis
    by auto
qed

lemma digits_are_digits: "\<forall>c \<in> set (digits n). 0x30 \<le> c \<and> c \<le> 0x39"
proof (induction n rule: digits.induct)
  case (1 n)
  show ?case
  proof (cases "n < 10")
    case True
    then show ?thesis
      using digit_range [of n] by (subst digits.simps) simp
  next
    case False
    have "n mod 10 < 10" by simp
    from digit_range [OF this] "1.IH" [OF False] False show ?thesis
      by (subst digits.simps) auto
  qed
qed

text \<open>
  For a finite number of magnitude below \<open>10\<^sup>2\<^sup>1\<close>, \<open>toFixed(2)\<close> writes a sign when the
  number is negative, at least one digit, a point and exactly two digits.
\<close>

lemma toFixed_2_shape:
  assumes "\<bar>r\<bar> < 10 ^ 21"
  shows "\<exists>i f. toFixed P 2 (Fin r) = (if r < 0 then str ''-'' else []) @ i @ str ''.'' @ f \<and>
               i \<noteq> [] \<and> length f = 2 \<and> (\<forall>c \<in> set (i @ f). 0x30 \<le> c \<and> c \<le> 0x39)"
proof -
  define n where "n = nat \<lfloor>\<bar>r\<bar> * 10 ^ 2 + 1 / 2\<rfloor>"
  define m where "m = replicate (2 + 1 - length (digits n)) (0x30 :: jschar) @ digits n"
  have len: "3 \<le> length m"
    by (simp add: m_def)
  have dig: "\<forall>c \<in> set m. 0x30 \<le> c \<and> c \<le> 0x39"
    using digits_are_digits [of n] by (auto simp: m_def)
  have tf: "toFixed P 2 (Fin r) =
      (if r < 0 then str ''-'' else []) @ take (length m - 2) m @ str ''.'' @ drop (length m - 2) m"
    using assms by (simp add: toFixed_def Let_def n_def m_def)
  have "take (length m - 2) m \<noteq> []" "length (drop (length m - 2) m) = 2"
    using len by auto
  moreover have "\<forall>c \<in> set (take (length m - 2) m @ drop (length m - 2) m). 0x30 \<le> c \<and> c \<le> 0x39"
    using dig by simp
  ultimately show ?thesis
    using tf by blast
qed

subsection \<open>Evaluation on literals\<close>

lemma floor_rat_numeral [simp]:
  "\<lfloor>numeral a / numeral b :: rat\<rfloor> = numeral a div numeral b"
  "\<lfloor>- (numeral a / numeral b) :: rat\<rfloor> = - numeral a div numeral b"
  "\<lfloor>1 / numeral b :: rat\<rfloor> = 1 div numeral b"
  using floor_divide_of_int_eq [of "numeral a" "numeral b", where ?'a = rat]
    floor_divide_of_int_eq [of "- numeral a" "numeral b", where ?'a = rat]
    floor_divide_of_int_eq [of 1 "numeral b", where ?'a = rat]
  by simp_all

lemma ceiling_rat_numeral [simp]:
  "\<lceil>numeral a / numeral b :: rat\<rceil> = - (- numeral a div numeral b)"
  unfolding ceiling_def by simp

lemmas round64_eval = round64_def ilog2_def pow2_def roundTiesToEven_def Let_def compute_floorlog

lemma round64_12_5: "round64 (25 / 2) = Fin (25 / 2)"
  by (simp add: round64_eval)

section \<open>Proofs: the result aggregator\<close>

lemma hasError_unitA: "\<not> hasError unitA"
  by (simp add: hasError_def unitA_def)

lemma hasError_unitB: "hasError unitB"
  by (simp add: hasError_def unitB_def str_def)

text \<open>
  C6. Whatever error fields the entries of a successful response carry, the run
  delivers every entry: the result sequence at the end is the array of the backend. For
  the array of a unit A with total 12.5 and any rows, and a unit B with only the error
  \<open>"timeout"\<close>, the summary is one success, one error and a total of 12.5.
\<close>

theorem unit_error_does_not_abort:
  assumes "validated s"
  shows "results (run s (handleScrape s (Success rs))) = rs \<and>
         successCount [unitA\<lparr>rows := rws\<rparr>, unitB] = 1 \<and>
         errorCount [unitA\<lparr>rows := rws\<rparr>, unitB] = 1 \<and>
         totalKg [unitA\<lparr>rows := rws\<rparr>, unitB] = Fin (25 / 2)"
proof -
  let ?t = "s\<lparr>results := [], loading := True, progress := (0, length (unitList (units s)))\<rparr>"
  have "run ?t (stream rs 0) =
      (if 0 < length rs then ?t\<lparr>results := rs, progress := (length rs, length rs)\<rparr> else ?t)"
    by (rule run_stream) simp_all
  then have loop: "results (run ?t (stream rs 0)) = rs"
    by (cases rs) simp_all
  have pre: "run s [SetLoading True, SetResults [], SetProgress 0 (length (unitList (units s))),
      Fetch \<lparr>req_units = unitList (units s), start_date = startDate s, end_date = endDate s\<rparr>] = ?t"
    by (simp add: run_def)
  have "run s (handleScrape s (Success rs)) =
      run (run ?t (stream rs 0)) [SetLoading False, SetProgress 0 0]"
    by (simp only: handleScrape_validated [OF assms] run_append pre try_block.simps)
  then have delivered: "results (run s (handleScrape s (Success rs))) = rs"
    by (simp add: run_Cons run_Nil loop)
  have counts: "successCount [unitA\<lparr>rows := rws\<rparr>, unitB] = 1"
    "errorCount [unitA\<lparr>rows := rws\<rparr>, unitB] = 1"
    by (simp_all add: successCount_def errorCount_def hasError_def unitA_def unitB_def str_def)
  have "totalKg [unitA\<lparr>rows := rws\<rparr>, unitB] = js_add (js_add (Fin 0) (Fin (25 / 2))) (Fin 0)"
    by (simp add: totalKg_def total_or_0_def unitA_def unitB_def)
  then have "totalKg [unitA\<lparr>rows := rws\<rparr>, unitB] = Fin (25 / 2)"
    by (simp add: round64_12_5)
  with delivered counts show ?thesis by simp
qed

theorem unit_error_does_not_abort_witness:
  "validated idle \<and> results (run idle (handleScrape idle (Success [unitA, unitB]))) = [unitA, unitB] \<and>
   successCount [unitA, unitB] = 1 \<and> errorCount [unitA, unitB] = 1 \<and>
   totalKg [unitA, unitB] = Fin (25 / 2)"
  using unit_error_does_not_abort [OF validated_idle, of "[unitA, unitB]" "rows unitA"] validated_idle
  by simp

lemma decimal_literals:
  "round64 (1 / 10) = Fin (3602879701896397 / 36028797018963968)"
  "round64 (2 / 10) = Fin (3602879701896397 / 18014398509481984)"
  "round64 (3 / 10) = Fin (5404319552844595 / 18014398509481984)"
  by (simp_all add: round64_eval)

lemma totalKg_123: "totalKg [unit01, unit02, unit03] = Fin (1351079888211149 / 2251799813685248)"
  by (simp add: totalKg_def total_or_0_def unit01_def unit02_def unit03_def round64_eval)

lemma totalKg_321: "totalKg [unit03, unit02, unit01] = Fin (5404319552844595 / 9007199254740992)"
  by (simp add: totalKg_def total_or_0_def unit01_def unit02_def unit03_def round64_eval)

text \<open>
  C7, as stated, fails: the total is a left-to-right sum of binary64 numbers, and the
  sum of the totals 0.1, 0.2, 0.3 is 0.6000000000000001 in this order and 0.6 in the
  reverse order.
\<close>

theorem totalKg_depends_on_order:
  "mset [unit01, unit02, unit03] = mset [unit03, unit02, unit01] \<and>
   totalKg [unit01, unit02, unit03] \<noteq> totalKg [unit03, unit02, unit01]"
  by (simp add: totalKg_123 totalKg_321)

lemma count_filter_mset: "length (filter Q xs) = size (filter_mset Q (mset xs))"
  by (metis mset_filter size_mset)

lemma sum_list_map_mset:
  fixes f :: "'a \<Rightarrow> rat"
  assumes "mset xs = mset ys"
  shows "(\<Sum>x\<leftarrow>xs. f x) = (\<Sum>x\<leftarrow>ys. f x)"
proof -
  have "mset (map f xs) = mset (map f ys)"
    using assms by (metis mset_map)
  then show ?thesis
    by (metis sum_mset_sum_list)
qed

lemma totalKg_fold: "totalKg rs = foldl js_add (Fin 0) (map total_or_0 rs)"
  by (simp add: totalKg_def foldl_map)

lemma totalKg_exact:
  assumes "j \<le> 1074" "\<forall>r \<in> set rs. on_grid j (total_or_0 r)"
    "(\<Sum>r\<leftarrow>rs. num_value (total_or_0 r)) * 2 ^ j \<le> 2 ^ 53"
  shows "totalKg rs = Fin (\<Sum>r\<leftarrow>rs. num_value (total_or_0 r))"
proof -
  have "foldl js_add (Fin 0) (map total_or_0 rs) = Fin (\<Sum>t\<leftarrow>map total_or_0 rs. num_value t)"
    using assms by (intro js_sum_exact [of j]) (simp_all add: comp_def)
  then show ?thesis
    by (simp add: totalKg_fold comp_def)
qed

lemma total_or_0_error: "total_or_0 (r\<lparr>error := e\<rparr>) = total_or_0 r"
  by (simp add: total_or_0_def)

lemma totalKg_error: "totalKg (map (\<lambda>r. r\<lparr>error := e r\<rparr>) rs) = totalKg rs"
  by (simp add: totalKg_fold comp_def total_or_0_error)

lemma grid_total_or_0:
  assumes "grid_total j r"
  shows "on_grid j (total_or_0 r) \<and> num_value (total_or_0 r) = stored_total r"
proof (cases "total_kg r")
  case None
  then show ?thesis
    by (simp add: total_or_0_def stored_total_def)
next
  case (Some t)
  with assms have "on_grid j t"
    by (simp add: grid_total_def)
  then show ?thesis
    using Some by (cases t) (simp_all add: total_or_0_def stored_total_def)
qed

lemma totalKg_stored:
  assumes "j \<le> 1074" "\<forall>r \<in> set rs. grid_total j r"
    "(\<Sum>r\<leftarrow>rs. stored_total r) * 2 ^ j \<le> 2 ^ 53"
  shows "totalKg rs = Fin (\<Sum>r\<leftarrow>rs. stored_total r)"
proof -
  have eq: "map (\<lambda>r. num_value (total_or_0 r)) rs = map stored_total rs"
    using assms(2) grid_total_or_0 by (intro map_cong) auto
  have "\<forall>r \<in> set rs. on_grid j (total_or_0 r)"
    using assms(2) grid_total_or_0 by blast
  moreover have "(\<Sum>r\<leftarrow>rs. num_value (total_or_0 r)) * 2 ^ j \<le> 2 ^ 53"
    using assms(3) by (simp only: eq)
  ultimately have "totalKg rs = Fin (\<Sum>r\<leftarrow>rs. num_value (total_or_0 r))"
    using assms(1) by (intro totalKg_exact)
  then show ?thesis
    by (simp only: eq)
qed

text \<open>
  C7, amended. The summary is a function of the result sequence. For every permutation
  of the sequence the number of units, of successes and of errors is unchanged, and the
  number of errors is the number of units minus the number of successes. The total is
  the sum, taken from left to right in binary64 arithmetic, of the stored totals of all
  entries, an absent, zero or NaN total counting as 0; it does not depend on the error
  fields, so that an entry with an error adds its stored total like any other. When
  the stored totals are non-negative multiples of one \<open>1 / 2\<^sup>j\<close> (whole numbers for
  j = 0), j at most 1074, and their sum is at most \<open>2\<^sup>5\<^sup>3 / 2\<^sup>j\<close>, the total is their exact
  sum, and the same for every permutation.
\<close>

theorem summary_of_permutation:
  assumes "mset rs = mset rs'"
  shows "length rs = length rs' \<and> successCount rs = successCount rs' \<and>
         errorCount rs = errorCount rs' \<and> errorCount rs = length rs - successCount rs \<and>
         totalKg rs =
           foldl js_add (Fin 0)
             (map (\<lambda>r. case total_kg r of None \<Rightarrow> Fin 0
                        | Some t \<Rightarrow> if truthy_num t then t else Fin 0) rs) \<and>
         totalKg (map (\<lambda>r. r\<lparr>error := e r\<rparr>) rs) = totalKg rs \<and>
         (j \<le> 1074 \<and> (\<forall>r \<in> set rs. grid_total j r) \<and>
          (\<Sum>r\<leftarrow>rs. stored_total r) * 2 ^ j \<le> 2 ^ 53 \<longrightarrow>
          totalKg rs = Fin (\<Sum>r\<leftarrow>rs. stored_total r) \<and> totalKg rs' = totalKg rs)"
proof -
  have "length rs = length rs'"
    using assms by (rule mset_eq_length)
  moreover have "successCount rs = successCount rs'" "errorCount rs = errorCount rs'"
    using assms by (simp_all add: successCount_def errorCount_def count_filter_mset)
  moreover have "errorCount rs + successCount rs = length rs"
    unfolding successCount_def errorCount_def by (rule sum_length_filter_compl)
  moreover have "totalKg rs =
      foldl js_add (Fin 0)
        (map (\<lambda>r. case total_kg r of None \<Rightarrow> Fin 0
                   | Some t \<Rightarrow> if truthy_num t then t else Fin 0) rs)"
    by (simp add: totalKg_def foldl_map total_or_0_def)
  moreover have "totalKg (map (\<lambda>r. r\<lparr>error := e r\<rparr>) rs) = totalKg rs"
    by (rule totalKg_error)
  moreover have "totalKg rs = Fin (\<Sum>r\<leftarrow>rs. stored_total r) \<and> totalKg rs' = totalKg rs"
    if j: "j \<le> 1074" and grid: "\<forall>r \<in> set rs. grid_total j r"
      and bound: "(\<Sum>r\<leftarrow>rs. stored_total r) * 2 ^ j \<le> 2 ^ 53"
  proof -
    have same: "(\<Sum>r\<leftarrow>rs'. stored_total r) = (\<Sum>r\<leftarrow>rs. stored_total r)"
      using assms by (intro sum_list_map_mset) simp
    have "set rs' = set rs"
      using assms by (metis mset_eq_setD)
    with grid have grid': "\<forall>r \<in> set rs'. grid_total j r"
      by simp
    have "totalKg rs = Fin (\<Sum>r\<leftarrow>rs. stored_total r)"
      using j grid bound by (rule totalKg_stored)
    moreover have "totalKg rs' = Fin (\<Sum>r\<leftarrow>rs'. stored_total r)"
      using j grid' bound unfolding same [symmetric] by (rule totalKg_stored)
    ultimately show ?thesis
      by (simp add: same)
  qed
  ultimately show ?thesis by simp
qed

theorem summary_of_permutation_witness:
  "mset [unitA, unitP, unitB] = mset [unitB, unitP, unitA] \<and> (1 :: nat) \<le> 1074 \<and>
   grid_total 1 unitA \<and> grid_total 1 unitP \<and> grid_total 1 unitB \<and>
   (\<Sum>r\<leftarrow>[unitA, unitP, unitB]. stored_total r) * 2 ^ 1 \<le> 2 ^ 53 \<and>
   hasError unitP \<and> stored_total unitP = 3 \<and>
   successCount [unitA, unitP, unitB] = successCount [unitB, unitP, unitA] \<and>
   errorCount [unitA, unitP, unitB] = errorCount [unitB, unitP, unitA] \<and>
   errorCount [unitA, unitP, unitB] =
     length [unitA, unitP, unitB] - successCount [unitA, unitP, unitB] \<and>
   totalKg (map (\<lambda>r. r\<lparr>error := None\<rparr>) [unitA, unitP, unitB]) = totalKg [unitA, unitP, unitB] \<and>
   totalKg [unitA, unitP, unitB] = Fin (31 / 2) \<and> totalKg [unitB, unitP, unitA] = Fin (31 / 2)"
proof -
  have p: "mset [unitA, unitP, unitB] = mset [unitB, unitP, unitA]" by simp
  have t: "stored_total unitA = 25 / 2" "stored_total unitP = 3" "stored_total unitB = 0"
    by (simp_all add: stored_total_def unitA_def unitP_def unitB_def)
  have g: "grid_total 1 unitA" "grid_total 1 unitP" "grid_total 1 unitB"
    by (simp_all add: grid_total_def unitA_def unitP_def unitB_def)
  have b: "(\<Sum>r\<leftarrow>[unitA, unitP, unitB]. stored_total r) * 2 ^ 1 \<le> 2 ^ 53"
    by (simp add: t)
  have s: "(\<Sum>r\<leftarrow>[unitA, unitP, unitB]. stored_total r) = 31 / 2"
    by (simp add: t)
  have hp: "hasError unitP"
    by (simp add: hasError_def unitP_def str_def)
  note inst = summary_of_permutation [OF p, of "\<lambda>r. None" 1]
  have hyp: "(1 :: nat) \<le> 1074 \<and> (\<forall>r \<in> set [unitA, unitP, unitB]. grid_total 1 r) \<and>
      (\<Sum>r\<leftarrow>[unitA, unitP, unitB]. stored_total r) * 2 ^ 1 \<le> 2 ^ 53"
    using g b by simp
  from inst hyp have "totalKg [unitA, unitP, unitB] = Fin (\<Sum>r\<leftarrow>[unitA, unitP, unitB]. stored_total r) \<and>
      totalKg [unitB, unitP, unitA] = totalKg [unitA, unitP, unitB]"
    by blast
  then have ex: "totalKg [unitA, unitP, unitB] = Fin (31 / 2)" "totalKg [unitB, unitP, unitA] = Fin (31 / 2)"
    unfolding s by simp_all
  from inst have c: "successCount [unitA, unitP, unitB] = successCount [unitB, unitP, unitA]"
    "errorCount [unitA, unitP, unitB] = errorCount [unitB, unitP, unitA]"
    "errorCount [unitA, unitP, unitB] =
       length [unitA, unitP, unitB] - successCount [unitA, unitP, unitB]"
    "totalKg (map (\<lambda>r. r\<lparr>error := None\<rparr>) [unitA, unitP, unitB]) = totalKg [unitA, unitP, unitB]"
    by blast+
  show ?thesis
    by (intro conjI p g b hp t(2) c ex) simp
qed

section \<open>Proofs: the tabular exporter\<close>

lemma foldl_push: "foldl (\<lambda>acc row. acc @ [f row]) acc rs = acc @ map f rs"
  by (induction rs arbitrary: acc) simp_all

lemma push_result_rows:
  assumes "total_kg r = Some t"
  shows "push_result P acc r = Inr (acc @ data_rows P r)"
proof (cases "rows r")
  case None
  then show ?thesis
    using assms
    by (auto simp: push_result_def data_rows_def total_text_def error_text_def Let_def
        split: option.splits)
next
  case (Some ds)
  then show ?thesis
    using assms
    by (cases ds)
      (auto simp: push_result_def data_rows_def total_text_def error_text_def foldl_push Let_def
        split: option.splits)
qed

lemma push_result_fails: "total_kg r = None \<Longrightarrow> push_result P acc r = Inl TypeError"
  by (simp add: push_result_def)

lemma forEach_result_rows:
  "\<forall>r \<in> set rs. total_kg r \<noteq> None \<Longrightarrow>
   forEach_result P acc rs = Inr (acc @ concat (map (data_rows P) rs))"
proof (induction rs arbitrary: acc)
  case Nil
  show ?case by simp
next
  case (Cons r rs)
  then obtain t where t: "total_kg r = Some t" by auto
  from Cons.prems have "\<forall>r \<in> set rs. total_kg r \<noteq> None" by simp
  then show ?case
    by (simp add: push_result_rows [OF t] Cons.IH)
qed

lemma forEach_result_fails:
  "\<exists>r \<in> set rs. total_kg r = None \<Longrightarrow> forEach_result P acc rs = Inl TypeError"
proof (induction rs arbitrary: acc)
  case Nil
  then show ?case by simp
next
  case (Cons r rs)
  show ?case
  proof (cases "total_kg r")
    case None
    then show ?thesis by (simp add: push_result_fails)
  next
    case (Some t)
    with Cons.prems have "\<exists>r \<in> set rs. total_kg r = None" by auto
    then show ?thesis
      by (simp add: push_result_rows [OF Some] Cons.IH)
  qed
qed

lemma length_data_rows:
  "length (data_rows P r) = (case rows r of None \<Rightarrow> 1 | Some ds \<Rightarrow> max 1 (length ds))"
  by (simp add: data_rows_def split: option.split list.split)

lemma toFixed_0: "toFixed P 2 (Fin 0) = str ''0.00''"
  by (simp add: toFixed_def digits.simps str_def)

lemma toFixed_examples:
  "toFixed P 2 (Fin 5) = str ''5.00''"
  "toFixed P 2 (Fin (15 / 2)) = str ''7.50''"
  "toFixed P 2 (Fin (25 / 2)) = str ''12.50''"
  by (simp_all add: toFixed_def digits.simps str_def Let_def)

lemma data_rows_unitA:
  "data_rows P unitA =
     [[str ''A'', toLocaleDateString P (str ''2024-01-01''), str ''5.00'', str ''12.50'', []],
      [str ''A'', toLocaleDateString P (str ''2024-01-02''), str ''7.50'', str ''12.50'', []]]"
  by (simp add: data_rows_def unitA_def day1_def day2_def total_text_def error_text_def
      toFixed_examples)

lemma data_rows_unitE:
  "data_rows P unitE = [[str ''E'', [], [], str ''0.00'', str ''timeout'']]"
  by (simp add: data_rows_def unitE_def total_text_def error_text_def toFixed_0)

text \<open>
  When every result has a total, the exported text is the byte-order mark, the header
  row, and then the rows of the results in the order of the sequence, each cell between
  quotes: for a result with daily records one row for each record, with the unit, the
  formatted date, the kg with two decimals, the total with two decimals and the error
  text; for a result with no record one row with empty date and kg. So a result has as
  many rows as daily records, and one when it has none.
\<close>

lemma exportToCSV_rows:
  assumes "\<forall>r \<in> set rs. total_kg r \<noteq> None"
  shows "exportToCSV P now rs sd ed =
           Inr \<lparr>content = BOM @ join (str ''\<newline>'')
                   (join (str '','') headers #
                    map (\<lambda>row. join (str '','') (map quote_cell row)) (concat (map (data_rows P) rs))),
                filename = str ''autolav_'' @ sd @ str ''_'' @ ed @ str ''_'' @ digits now @ str ''.csv''\<rparr> \<and>
         (\<forall>r \<in> set rs. length (data_rows P r) =
            (case rows r of None \<Rightarrow> 1 | Some ds \<Rightarrow> max 1 (length ds)))"
  by (simp add: exportToCSV_def forEach_result_rows [OF assms] csvContent_def length_data_rows)

lemma forEach_result_example:
  "forEach_result P [] [unitA, unitE] =
     Inr [[str ''A'', toLocaleDateString P (str ''2024-01-01''), str ''5.00'', str ''12.50'', []],
          [str ''A'', toLocaleDateString P (str ''2024-01-02''), str ''7.50'', str ''12.50'', []],
          [str ''E'', [], [], str ''0.00'', str ''timeout'']]"
proof -
  have "\<forall>r \<in> set [unitA, unitE]. total_kg r \<noteq> None"
    by (simp add: unitA_def unitE_def)
  then have "forEach_result P [] [unitA, unitE] = Inr ([] @ concat (map (data_rows P) [unitA, unitE]))"
    by (rule forEach_result_rows)
  then show ?thesis
    by (simp add: data_rows_unitA data_rows_unitE)
qed

lemma unitB_fields: "total_kg unitB = None" "rows unitB = None" "hasError unitB"
  by (simp_all add: unitB_def hasError_def str_def)

text \<open>
  C8. The claim holds of every sequence whose results all have a total, and fails of
  the others: the exporter reads \<open>result.total.toFixed(2)\<close> with no test, where the
  aggregator reads \<open>r.total || 0\<close>. For the unit A with two daily records followed by
  the unit B that has only an error, the aggregator counts a total of 12.5, and the
  exporter throws: no header row and no data row is written, not the two rows of A and
  the one row of B.
\<close>

theorem exportToCSV_throws_without_total:
  "total_kg unitB = None \<and> rows unitB = None \<and> hasError unitB \<and>
   totalKg [unitA, unitB] = Fin (25 / 2) \<and>
   exportToCSV P now [unitA, unitB] sd ed = Inl TypeError"
proof -
  have "\<exists>r \<in> set [unitA, unitB]. total_kg r = None"
    by (simp add: unitB_fields)
  then have "forEach_result P [] [unitA, unitB] = Inl TypeError"
    by (rule forEach_result_fails)
  then have "exportToCSV P now [unitA, unitB] sd ed = Inl TypeError"
    unfolding exportToCSV_def by simp
  moreover have "totalKg [unitA, unitB] = js_add (js_add (Fin 0) (Fin (25 / 2))) (Fin 0)"
    by (simp add: totalKg_def total_or_0_def unitA_def unitB_def)
  then have "totalKg [unitA, unitB] = Fin (25 / 2)"
    by (simp add: round64_12_5)
  ultimately show ?thesis
    by (simp add: unitB_fields)
qed

lemma forEach_result_append:
  "forEach_result P acc (xs @ ys) =
   (case forEach_result P acc xs of Inl e \<Rightarrow> Inl e | Inr acc' \<Rightarrow> forEach_result P acc' ys)"
  by (induction xs arbitrary: acc) (simp_all split: sum.split)

lemma push_result_absent_rows:
  "rows r = None \<Longrightarrow> push_result P acc (r\<lparr>rows := Some []\<rparr>) = push_result P acc r"
  by (simp add: push_result_def Let_def split: option.split)

text \<open>
  The test \<open>result.rows && result.rows.length > 0\<close> sends an absent \<open>rows\<close> field to
  the branch of the empty sequence: a result whose \<open>rows\<close> field is absent is exported
  exactly as the same result with an empty \<open>rows\<close> sequence, wherever it stands in the
  sequence, and when it has a total the export of it alone is the header row and one
  data row whose date and kg cells are empty.
\<close>

lemma absent_rows_like_empty:
  assumes "rows r = None"
  shows "exportToCSV P now (xs @ r # ys) sd ed = exportToCSV P now (xs @ r\<lparr>rows := Some []\<rparr> # ys) sd ed \<and>
         (\<forall>t. total_kg r = Some t \<longrightarrow>
            exportToCSV P now [r] sd ed =
              Inr \<lparr>content = BOM @ join (str ''\<newline>'')
                      [join (str '','') headers,
                       join (str '','') (map quote_cell [unit_id r, [], [], toFixed P 2 t, error_text r])],
                   filename = str ''autolav_'' @ sd @ str ''_'' @ ed @ str ''_'' @ digits now @ str ''.csv''\<rparr>)"
proof (intro conjI allI impI)
  have "forEach_result P [] (xs @ r # ys) = forEach_result P [] (xs @ r\<lparr>rows := Some []\<rparr> # ys)"
    by (simp add: forEach_result_append push_result_absent_rows [OF assms] split: sum.split)
  then show "exportToCSV P now (xs @ r # ys) sd ed =
      exportToCSV P now (xs @ r\<lparr>rows := Some []\<rparr> # ys) sd ed"
    by (simp add: exportToCSV_def)
next
  fix t
  assume t: "total_kg r = Some t"
  have "data_rows P r = [[unit_id r, [], [], toFixed P 2 t, error_text r]]"
    using assms t by (simp add: data_rows_def total_text_def)
  moreover have "\<forall>x \<in> set [r]. total_kg x \<noteq> None"
    using t by simp
  ultimately show "exportToCSV P now [r] sd ed =
      Inr \<lparr>content = BOM @ join (str ''\<newline>'')
              [join (str '','') headers,
               join (str '','') (map quote_cell [unit_id r, [], [], toFixed P 2 t, error_text r])],
           filename = str ''autolav_'' @ sd @ str ''_'' @ ed @ str ''_'' @ digits now @ str ''.csv''\<rparr>"
    unfolding exportToCSV_def forEach_result_rows [OF \<open>\<forall>x \<in> set [r]. total_kg x \<noteq> None\<close>]
    by (simp add: csvContent_def)
qed

text \<open>
  C10. The exporter is not total on the results whose \<open>rows\<close> field is absent: the
  unit B, which has an error and neither rows nor total, makes it throw at
  \<open>result.total.toFixed(2)\<close>, before the test of \<open>rows\<close> is reached, and it throws as
  well when B is given an empty \<open>rows\<close> sequence. No data row is produced.
\<close>

theorem exportToCSV_throws_on_absent_rows:
  "rows unitB = None \<and> total_kg unitB = None \<and>
   exportToCSV P now [unitB] sd ed = Inl TypeError \<and>
   exportToCSV P now [unitB\<lparr>rows := Some []\<rparr>] sd ed = Inl TypeError"
proof -
  have "push_result P [] unitB = Inl TypeError"
    by (rule push_result_fails) (rule unitB_fields)
  moreover have "push_result P [] (unitB\<lparr>rows := Some []\<rparr>) = Inl TypeError"
    by (rule push_result_fails) (simp add: unitB_fields)
  ultimately show ?thesis
    by (simp add: exportToCSV_def unitB_fields)
qed

subsection \<open>Reading back what was written\<close>

lemma str_comma: "str '','' = [0x2C]"
  by (simp add: str_def)

lemma str_newline: "str ''\<newline>'' = [0x0A]"
  by (simp add: str_def)

lemma read_quoted_body:
  "0x22 \<notin> set cell \<Longrightarrow>
   read_loop Quoted f fs rs (cell @ 0x22 # rest) = read_loop QuoteSeen (f @ cell) fs rs rest"
  by (induction cell arbitrary: f) simp_all

lemma read_quoted_cell:
  assumes "0x22 \<notin> set cell"
  shows "read_loop FieldStart [] fs rs (quote_cell cell @ rest) = read_loop QuoteSeen cell fs rs rest"
  using read_quoted_body [OF assms, of "[]" fs rs rest]
  by (simp add: quote_cell_def str_def)

lemma read_quoted_row:
  "row \<noteq> [] \<Longrightarrow> \<forall>cell \<in> set row. 0x22 \<notin> set cell \<Longrightarrow>
   read_loop FieldStart [] fs rs (join (str '','') (map quote_cell row) @ rest) =
   read_loop QuoteSeen (last row) (fs @ butlast row) rs rest"
proof (induction row arbitrary: fs)
  case Nil
  then show ?case by simp
next
  case (Cons c row)
  have c: "0x22 \<notin> set c"
    using Cons.prems by simp
  show ?case
  proof (cases row)
    case Nil
    with c show ?thesis by (simp add: read_quoted_cell)
  next
    case (Cons c' row')
    let ?tail = "join (str '','') (map quote_cell row) @ rest"
    have "join (str '','') (map quote_cell (c # row)) @ rest = quote_cell c @ (0x2C # ?tail)"
      using Cons by (simp add: str_comma)
    then have "read_loop FieldStart [] fs rs (join (str '','') (map quote_cell (c # row)) @ rest) =
        read_loop FieldStart [] fs rs (quote_cell c @ (0x2C # ?tail))"
      by (simp only:)
    also have "\<dots> = read_loop QuoteSeen c fs rs (0x2C # ?tail)"
      using c by (rule read_quoted_cell)
    also have "\<dots> = read_loop FieldStart [] (fs @ [c]) rs ?tail"
      by simp
    also have "\<dots> = read_loop QuoteSeen (last row) ((fs @ [c]) @ butlast row) rs rest"
      using Cons.prems Cons by (intro Cons.IH) simp_all
    also have "\<dots> = read_loop QuoteSeen (last (c # row)) (fs @ butlast (c # row)) rs rest"
      using Cons by simp
    finally show ?thesis .
  qed
qed

lemma read_quoted_rows:
  "rws \<noteq> [] \<Longrightarrow> \<forall>row \<in> set rws. row \<noteq> [] \<and> (\<forall>cell \<in> set row. 0x22 \<notin> set cell) \<Longrightarrow>
   read_loop FieldStart [] [] rs
     (join (str ''\<newline>'') (map (\<lambda>row. join (str '','') (map quote_cell row)) rws)) =
   Some (rs @ rws)"
proof (induction rws arbitrary: rs)
  case Nil
  then show ?case by simp
next
  case (Cons r rws)
  let ?render = "\<lambda>row. join (str '','') (map quote_cell row)"
  have r: "r \<noteq> []" "\<forall>cell \<in> set r. 0x22 \<notin> set cell"
    using Cons.prems by simp_all
  have full: "butlast r @ [last r] = r"
    using r(1) by simp
  show ?case
  proof (cases rws)
    case Nil
    have "read_loop FieldStart [] [] rs (?render r @ []) = read_loop QuoteSeen (last r) ([] @ butlast r) rs []"
      using r by (rule read_quoted_row)
    then show ?thesis
      using Nil full by simp
  next
    case (Cons r' rws')
    let ?tail = "join (str ''\<newline>'') (map ?render rws)"
    have "join (str ''\<newline>'') (map ?render (r # rws)) = ?render r @ (0x0A # ?tail)"
      using Cons by (simp add: str_newline)
    then have "read_loop FieldStart [] [] rs (join (str ''\<newline>'') (map ?render (r # rws))) =
        read_loop FieldStart [] [] rs (?render r @ (0x0A # ?tail))"
      by (simp only:)
    also have "\<dots> = read_loop QuoteSeen (last r) ([] @ butlast r) rs (0x0A # ?tail)"
      using r by (rule read_quoted_row)
    also have "\<dots> = read_loop FieldStart [] [] (rs @ [r]) ?tail"
      using full by simp
    also have "\<dots> = Some ((rs @ [r]) @ rws)"
      using Cons.prems Cons by (intro Cons.IH) simp_all
    finally show ?thesis by simp
  qed
qed

lemma read_header:
  "read_loop FieldStart [] [] [] (join (str '','') headers @ 0x0A # rest) =
   read_loop FieldStart [] [] [headers] rest"
  by (simp add: headers_def str_def)

lemma read_header_only:
  "read_loop FieldStart [] [] [] (join (str '','') headers) = Some [headers]"
  by (simp add: headers_def str_def)

lemma read_csv_BOM: "read_csv (BOM @ text) = read_loop FieldStart [] [] [] text"
  by (simp add: read_csv_def BOM_def)

lemma read_csv_roundtrip:
  assumes "\<forall>row \<in> set rws. row \<noteq> [] \<and> (\<forall>cell \<in> set row. 0x22 \<notin> set cell)"
  shows "read_csv (BOM @ csvContent rws) = Some (headers # rws)"
proof (cases rws)
  case Nil
  then show ?thesis
    by (simp add: read_csv_BOM csvContent_def read_header_only)
next
  case (Cons r rws')
  let ?render = "\<lambda>row. join (str '','') (map quote_cell row)"
  let ?tail = "join (str ''\<newline>'') (map ?render rws)"
  have ne: "rws \<noteq> []"
    using Cons by simp
  have "csvContent rws = join (str '','') headers @ 0x0A # ?tail"
    using Cons by (simp add: csvContent_def str_newline)
  then have "read_csv (BOM @ csvContent rws) =
      read_loop FieldStart [] [] [] (join (str '','') headers @ 0x0A # ?tail)"
    by (simp only: read_csv_BOM)
  also have "\<dots> = read_loop FieldStart [] [] [headers] ?tail"
    by (rule read_header)
  also have "\<dots> = Some ([headers] @ rws)"
    using ne assms by (rule read_quoted_rows)
  finally show ?thesis by simp
qed

lemma data_rows_cells: "row \<in> set (data_rows P r) \<Longrightarrow> length row = 5"
  by (auto simp: data_rows_def split: option.splits list.splits)

text \<open>
  When no cell holds a quote, the reader gives back the header and the rows of the
  table, whatever commas and line feeds the cells hold.
\<close>

lemma exportToCSV_roundtrip:
  assumes "\<forall>r \<in> set rs. total_kg r \<noteq> None"
    and "\<forall>r \<in> set rs. \<forall>row \<in> set (data_rows P r). \<forall>cell \<in> set row. 0x22 \<notin> set cell"
  shows "\<exists>d. exportToCSV P now rs sd ed = Inr d \<and>
             read_csv (content d) = Some (headers # concat (map (data_rows P) rs))"
proof -
  have "\<forall>row \<in> set (concat (map (data_rows P) rs)). row \<noteq> [] \<and> (\<forall>cell \<in> set row. 0x22 \<notin> set cell)"
    using assms(2) data_rows_cells by fastforce
  then have "read_csv (BOM @ csvContent (concat (map (data_rows P) rs))) =
      Some (headers # concat (map (data_rows P) rs))"
    by (rule read_csv_roundtrip)
  then show ?thesis
    unfolding exportToCSV_def forEach_result_rows [OF assms(1)] by simp
qed

lemma data_rows_quote_examples:
  "data_rows P unitQ = [[str ''Q'', [], [], str ''0.00'', str ''say \"hi\"'']]"
  "data_rows P unitX = [[str ''X'', [], [], str ''0.00'', str ''e\"\<newline>\"Y\",\"\",\"\",\"0.00\",\"f'']]"
  "data_rows P unitX' = [[str ''X'', [], [], str ''0.00'', str ''e'']]"
  "data_rows P unitY = [[str ''Y'', [], [], str ''0.00'', str ''f'']]"
  by (simp_all add: data_rows_def unitQ_def unitX_def unitX'_def unitY_def total_text_def
      error_text_def toFixed_0)

lemma totals_quote_examples:
  "\<forall>r \<in> set [unitQ]. total_kg r \<noteq> None"
  "\<forall>r \<in> set [unitX]. total_kg r \<noteq> None"
  "\<forall>r \<in> set [unitX', unitY]. total_kg r \<noteq> None"
  by (simp_all add: unitQ_def unitX_def unitX'_def unitY_def)

text \<open>
  C1. The exporter puts every cell between quotes and does not double a quote inside
  a cell. For a unit Q whose error text is \<open>say "hi"\<close> the data row is
  \<open>"Q","","","0.00","say "hi""\<close>, which the reader refuses; and a unit whose error
  text closes its row and writes a second one is exported to the same text as two
  units, so that no reader can give back both tables.
\<close>

theorem exportToCSV_does_not_escape_quotes:
  "exportToCSV P now [unitQ] sd ed =
     Inr \<lparr>content = BOM @ str (''Unidade,Data,Kg,Total Unidade,Erro\<newline>'' @
                               ''\"Q\",\"\",\"\",\"0.00\",\"say \"hi\"\"''),
          filename = str ''autolav_'' @ sd @ str ''_'' @ ed @ str ''_'' @ digits now @ str ''.csv''\<rparr> \<and>
   read_csv (BOM @ str (''Unidade,Data,Kg,Total Unidade,Erro\<newline>'' @
                        ''\"Q\",\"\",\"\",\"0.00\",\"say \"hi\"\"'')) = None \<and>
   exportToCSV P now [unitX] sd ed = exportToCSV P now [unitX', unitY] sd ed \<and>
   forEach_result P [] [unitX] \<noteq> forEach_result P [] [unitX', unitY]"
proof (intro conjI)
  show "exportToCSV P now [unitQ] sd ed =
     Inr \<lparr>content = BOM @ str (''Unidade,Data,Kg,Total Unidade,Erro\<newline>'' @
                               ''\"Q\",\"\",\"\",\"0.00\",\"say \"hi\"\"''),
          filename = str ''autolav_'' @ sd @ str ''_'' @ ed @ str ''_'' @ digits now @ str ''.csv''\<rparr>"
    unfolding exportToCSV_def forEach_result_rows [OF totals_quote_examples(1)]
    by (simp add: data_rows_quote_examples csvContent_def headers_def quote_cell_def)
      (simp add: str_def)
  show "read_csv (BOM @ str (''Unidade,Data,Kg,Total Unidade,Erro\<newline>'' @
                        ''\"Q\",\"\",\"\",\"0.00\",\"say \"hi\"\"'')) = None"
    by (simp add: read_csv_def BOM_def str_def)
  show "exportToCSV P now [unitX] sd ed = exportToCSV P now [unitX', unitY] sd ed"
    unfolding exportToCSV_def forEach_result_rows [OF totals_quote_examples(2)]
      forEach_result_rows [OF totals_quote_examples(3)]
    by (simp add: data_rows_quote_examples csvContent_def headers_def quote_cell_def)
      (simp add: str_def)
  show "forEach_result P [] [unitX] \<noteq> forEach_result P [] [unitX', unitY]"
    unfolding forEach_result_rows [OF totals_quote_examples(2)]
      forEach_result_rows [OF totals_quote_examples(3)]
    by (simp add: data_rows_quote_examples)
qed

lemma read_csv_example:
  "read_csv (BOM @ str (''Unidade,Data,Kg,Total Unidade,Erro\<newline>'' @
                               ''\"A\",\"2024-01-01\",\"5.00\",\"12.50\",\"\"\<newline>'' @
                               ''\"A\",\"2024-01-02\",\"7.50\",\"12.50\",\"\"\<newline>'' @
                               ''\"E\",\"\",\"\",\"0.00\",\"time,\<newline>out\"''))
   = Some [headers, [str ''A'', str ''2024-01-01'', str ''5.00'', str ''12.50'', []],
      [str ''A'', str ''2024-01-02'', str ''7.50'', str ''12.50'', []], [str ''E'', [], [], str ''0.00'', str ''time,\<newline>out'']]"
  by (simp add: read_csv_def BOM_def str_def headers_def)


end
